theory Spec2Isabelle
  imports Main "HOL-Library.Sublist"
begin

section \<open>Strings\<close>

text \<open>
  A Python \<open>str\<close> is modelled as a \<open>string\<close>, a list of 8-bit characters, each read as
  the code point of the same number (0 to 255). Text with code points above 255 is
  outside the model.
\<close>

text \<open>
  \<open>c.lower()\<close> for one character: the upper-case letters of this range are A to Z
  (65 to 90) and the Latin-1 capitals 192 to 222 without the multiplication sign 215;
  each has its lower-case letter 32 places further on.
\<close>

definition lower_char :: "char \<Rightarrow> char" where
  "lower_char c =
     (let n = (of_char c :: nat)
      in if (65 \<le> n \<and> n \<le> 90) \<or> (192 \<le> n \<and> n \<le> 222 \<and> n \<noteq> 215)
         then char_of (n + 32) else c)"

text \<open>\<open>text.lower()\<close>\<close>

definition lower :: "string \<Rightarrow> string" where
  "lower text = map lower_char text"

text \<open>
  \<open>word in text\<close> on two strings: \<open>word\<close> occurs in \<open>text\<close> as a contiguous
  run of characters, starting at some position of \<open>text\<close>.
\<close>

fun is_in :: "string \<Rightarrow> string \<Rightarrow> bool" where
  "is_in word [] = (word = [])"
| "is_in word (c # cs) = (prefix word (c # cs) \<or> is_in word cs)"

section \<open>Classifier\<close>

text \<open>
  The dictionary \<open>categories\<close> of \<open>categorize_grievance\<close>, as the list of its items in
  insertion order, which is the order \<open>categories.items()\<close> yields them in.
\<close>

definition categories :: "(string \<times> string list) list" where
  "categories =
     [(''Water Supply'', [''water'', ''supply'', ''tap'']),
      (''Garbage'', [''garbage'', ''trash'', ''waste'']),
      (''Electricity'', [''electric'', ''light'', ''power'']),
      (''Road Damage'', [''road'', ''pothole'', ''crack''])]"

text \<open>\<open>any(keyword in text.lower() for keyword in keywords)\<close>\<close>

definition any_keyword :: "string \<Rightarrow> string list \<Rightarrow> bool" where
  "any_keyword text keywords = list_ex (\<lambda>keyword. is_in keyword (lower text)) keywords"

text \<open>The \<open>for\<close> loop over the items, returning at the first hit; \<open>Other\<close> after it.\<close>

fun categorize_loop :: "string \<Rightarrow> (string \<times> string list) list \<Rightarrow> string" where
  "categorize_loop text [] = ''Other''"
| "categorize_loop text ((category, keywords) # items) =
     (if any_keyword text keywords then category else categorize_loop text items)"

definition categorize_grievance :: "string \<Rightarrow> string" where
  "categorize_grievance text = categorize_loop text categories"

section \<open>Scorer\<close>

definition urgent_keywords :: "string list" where
  "urgent_keywords =
     [''urgent'', ''danger'', ''injury'', ''critical'', ''emergency'', ''life-threatening'',
      ''fire'', ''flood'', ''accident'', ''immediate'', ''disaster'']"

definition medium_keywords :: "string list" where
  "medium_keywords =
     [''important'', ''delayed'', ''issue'', ''complaint'', ''damaged'', ''repair'',
      ''malfunction'', ''urgent'', ''critical'', ''problem'']"

definition low_keywords :: "string list" where
  "low_keywords =
     [''routine'', ''normal'', ''minor'', ''checkup'', ''maintenance'', ''scheduled'',
      ''repair'', ''recheck'', ''regular'', ''ongoing'']"

text \<open>
  One scoring loop: \<open>for word in keywords: if word in text.lower(): score += weight\<close>,
  from the score so far to the score after the loop.
\<close>

fun scoring_loop :: "string \<Rightarrow> int \<Rightarrow> string list \<Rightarrow> int \<Rightarrow> int" where
  "scoring_loop text weight [] score = score"
| "scoring_loop text weight (word # keywords) score =
     scoring_loop text weight keywords
       (if is_in word (lower text) then score + weight else score)"

text \<open>
  The value of the variable \<open>score\<close> when \<open>grievance_score\<close> reaches its \<open>return\<close>:
  the three loops in turn, then the 25 points for an unresolved grievance.
\<close>

definition keyword_score :: "string \<Rightarrow> int" where
  "keyword_score text =
     (let score = 0;
          score = scoring_loop text 40 urgent_keywords score;
          score = scoring_loop text 20 medium_keywords score;
          score = scoring_loop text 5 low_keywords score
      in if is_in ''not resolved'' (lower text) \<or> is_in ''again'' (lower text)
         then score + 25 else score)"

definition grievance_score :: "string \<Rightarrow> int" where
  "grievance_score text = min (keyword_score text + 50) 100"

section \<open>Action advisor\<close>

text \<open>
  The dictionary \<open>actions\<close> of \<open>suggest_action\<close>, built for the given priority, as the
  list of its items; its four keys are distinct.
\<close>

definition actions :: "int \<Rightarrow> (string \<times> string) list" where
  "actions priority =
     [(''Water Supply'', if priority > 70 then ''Forward to Jal Nigam for urgent inspection''
                         else ''Forward to Jal Nigam for regular check''),
      (''Road Damage'', if priority > 70 then ''Notify PWD for immediate repair''
                        else ''Notify PWD for standard check''),
      (''Garbage'', if priority > 70 then ''Alert sanitation department for immediate cleaning''
                    else ''Alert sanitation department for routine collection''),
      (''Electricity'', if priority > 70 then ''Notify electricity board for urgent check''
                        else ''Notify electricity board for regular maintenance'')]"

text \<open>\<open>actions.get(category, default)\<close>\<close>

definition suggest_action :: "string \<Rightarrow> int \<Rightarrow> string" where
  "suggest_action category priority =
     (case map_of (actions priority) category of
        Some action \<Rightarrow> action
      | None \<Rightarrow> ''Review and assign appropriate department.'')"

section \<open>Keywords of a grievance\<close>

text \<open>
  The characters at which \<open>str.split()\<close> cuts: those \<open>str.isspace\<close> accepts, which below
  256 are 9 to 13, 28 to 32, 133 and 160.
\<close>

definition isspace :: "char \<Rightarrow> bool" where
  "isspace c =
     (let n = (of_char c :: nat)
      in (9 \<le> n \<and> n \<le> 13) \<or> (28 \<le> n \<and> n \<le> 32) \<or> n = 133 \<or> n = 160)"

text \<open>
  \<open>text.split()\<close>: the maximal runs of characters that are not white space, in order;
  \<open>word\<close> is the run read so far.
\<close>

fun split_loop :: "string \<Rightarrow> string \<Rightarrow> string list" where
  "split_loop word [] = (if word = [] then [] else [word])"
| "split_loop word (c # cs) =
     (if isspace c then (if word = [] then [] else [word]) @ split_loop [] cs
      else split_loop (word @ [c]) cs)"

definition split :: "string \<Rightarrow> string list" where
  "split text = split_loop [] text"

definition extract_keywords :: "string \<Rightarrow> string list" where
  "extract_keywords text = filter (\<lambda>word. length word > 4) (split (lower text))"

section \<open>Grievance records\<close>

text \<open>
  The values the program keeps in a grievance and reads back from its JSON document:
  \<open>None\<close>, booleans, integers, strings, lists, and dictionaries with string keys. A
  dictionary is the list of its items in insertion order. Floating-point numbers are
  outside the model.
\<close>

datatype pyval =
    PyNone
  | PyBool bool
  | PyInt int
  | PyStr string
  | PyList "pyval list"
  | PyDict "(string \<times> pyval) list"

text \<open>
  The exceptions of the modelled code. The last two are not Python's: \<open>OutsideModel\<close>
  marks a document that holds a value \<open>pyval\<close> cannot hold, \<open>OutOfFuel\<close> a parser that
  was given too little fuel.
\<close>

datatype error =
    KeyError
  | TypeError
  | ValueError
  | JSONDecodeError
  | RecursionError
  | OutsideModel
  | OutOfFuel

text \<open>\<open>d[key]\<close> with a string key: only a dictionary can be indexed by a string.\<close>

definition getitem :: "pyval \<Rightarrow> string \<Rightarrow> error + pyval" where
  "getitem d key =
     (case d of
        PyDict items \<Rightarrow> (case map_of items key of None \<Rightarrow> Inl KeyError | Some v \<Rightarrow> Inr v)
      | _ \<Rightarrow> Inl TypeError)"

text \<open>
  Storing under a key keeps the position of a key that is present and adds a new key at
  the end.
\<close>

primrec dict_store :: "string \<Rightarrow> pyval \<Rightarrow> (string \<times> pyval) list \<Rightarrow> (string \<times> pyval) list" where
  "dict_store key v [] = [(key, v)]"
| "dict_store key v (item # items) =
     (if fst item = key then (key, v) # items else item # dict_store key v items)"

text \<open>\<open>d[key] = v\<close>, returning the dictionary as it is after the assignment.\<close>

definition setitem :: "pyval \<Rightarrow> string \<Rightarrow> pyval \<Rightarrow> error + pyval" where
  "setitem d key v =
     (case d of
        PyDict items \<Rightarrow> Inr (PyDict (dict_store key v items))
      | _ \<Rightarrow> Inl TypeError)"

section \<open>Escalation rule\<close>

text \<open>
  \<open>auto_escalate\<close> mutates its argument; the model returns the flag together with the
  grievance as it is afterwards. Two values come from the standard library and are
  parameters:
  \<^item> \<open>today\<close>, the day number of \<open>datetime.date.today()\<close>;
  \<^item> \<open>strptime\<close>, for \<open>datetime.datetime.strptime(s, "%Y-%m-%d").date()\<close> as a day
    number, \<open>None\<close> where it raises \<open>ValueError\<close>.
  Day numbers are proleptic Gregorian ordinals, so \<open>(today - g_date).days\<close> is their
  difference. A \<open>Date\<close> that is not a string makes \<open>strptime\<close> raise \<open>TypeError\<close>.
\<close>

definition auto_escalate ::
  "(string \<Rightarrow> int option) \<Rightarrow> int \<Rightarrow> pyval \<Rightarrow> error + (bool \<times> pyval)" where
  "auto_escalate strptime today grievance =
     (case getitem grievance ''Date'' of
        Inl e \<Rightarrow> Inl e
      | Inr date \<Rightarrow>
     (case date of
        PyStr date_string \<Rightarrow>
          (case strptime date_string of
             None \<Rightarrow> Inl ValueError
           | Some g_date \<Rightarrow>
          (case getitem grievance ''Status'' of
             Inl e \<Rightarrow> Inl e
           | Inr status \<Rightarrow>
               if status = PyStr ''Pending'' \<and> today - g_date > 3
               then (case setitem grievance ''Escalated'' (PyStr ''Yes'') of
                       Inl e \<Rightarrow> Inl e
                     | Inr escalated \<Rightarrow>
                    (case setitem escalated ''Status'' (PyStr ''Escalated'') of
                       Inl e \<Rightarrow> Inl e
                     | Inr escalated \<Rightarrow> Inr (True, escalated)))
               else Inr (False, grievance)))
      | _ \<Rightarrow> Inl TypeError))"

section \<open>Submitting a grievance\<close>

text \<open>
  What the submit form hands over: the two text fields, \<open>str(grievance_date)\<close>, the
  eight characters cut from a fresh UUID, and the paths under which the uploaded image
  and document were written (\<open>None\<close> without an upload). Writing the uploads is outside
  the model.
\<close>

record submission =
  name :: string
  grievance_date :: string
  grievance_text :: string
  grievance_id :: string
  image_path :: "string option"
  doc_path :: "string option"

definition optional_path :: "string option \<Rightarrow> pyval" where
  "optional_path path = (case path of None \<Rightarrow> PyNone | Some p \<Rightarrow> PyStr p)"

text \<open>The dictionary appended for a submission.\<close>

definition new_grievance :: "submission \<Rightarrow> pyval" where
  "new_grievance s =
     PyDict
       [(''ID'', PyStr (grievance_id s)),
        (''Name'', PyStr (name s)),
        (''Text'', PyStr (grievance_text s)),
        (''Category'', PyStr (categorize_grievance (grievance_text s))),
        (''Date'', PyStr (grievance_date s)),
        (''Priority'', PyInt (grievance_score (grievance_text s))),
        (''Keywords'', PyList (map PyStr (extract_keywords (grievance_text s)))),
        (''Status'', PyStr ''Pending''),
        (''Escalated'', PyStr ''No''),
        (''Image'', optional_path (image_path s)),
        (''Attachment'', optional_path (doc_path s))]"

text \<open>
  The submit branch on the list of grievances: with a name and a text the new record is
  appended, otherwise the form only warns and the list stays as it is.
\<close>

definition submit_grievance :: "submission \<Rightarrow> pyval list \<Rightarrow> pyval list" where
  "submit_grievance s grievances =
     (if name s \<noteq> [] \<and> grievance_text s \<noteq> [] then grievances @ [new_grievance s]
      else grievances)"

section \<open>Updating a status\<close>

text \<open>
  The loop of the admin panel's update button, \<open>for g in grievances\<close>: a grievance whose
  \<open>ID\<close> is the selected one gets the new status and is then passed to \<open>auto_escalate\<close>.
  The result is the list as it is after the loop; an exception ends the loop, and the
  list is then not saved. \<open>selected_id\<close> and \<open>new_status\<close> are strings: the first is the
  \<open>ID\<close> of a record, the second one of the three the select box offers.
\<close>

fun update_status ::
  "(string \<Rightarrow> int option) \<Rightarrow> int \<Rightarrow> string \<Rightarrow> string \<Rightarrow> pyval list \<Rightarrow> error + pyval list" where
  "update_status strptime today selected_id new_status [] = Inr []"
| "update_status strptime today selected_id new_status (g # grievances) =
     (case getitem g ''ID'' of
        Inl e \<Rightarrow> Inl e
      | Inr ident \<Rightarrow>
          if ident = PyStr selected_id
          then (case setitem g ''Status'' (PyStr new_status) of
                  Inl e \<Rightarrow> Inl e
                | Inr g1 \<Rightarrow>
               (case auto_escalate strptime today g1 of
                  Inl e \<Rightarrow> Inl e
                | Inr (escalated, g2) \<Rightarrow>
               (case update_status strptime today selected_id new_status grievances of
                  Inl e \<Rightarrow> Inl e
                | Inr rest \<Rightarrow> Inr (g2 # rest))))
          else (case update_status strptime today selected_id new_status grievances of
                  Inl e \<Rightarrow> Inl e
                | Inr rest \<Rightarrow> Inr (g # rest)))"
section \<open>Record store\<close>

subsection \<open>Writing JSON\<close>

text \<open>
  \<open>json.dump(grievances, f, indent=4)\<close> writes what the encoder of the standard library
  yields for \<open>indent=4\<close> and the default \<open>ensure_ascii=True\<close>: items are separated by a
  comma, a key from its value by a colon and a space, and every item of a non-empty list
  or dictionary starts on a line of its own, indented by four spaces for each level.
\<close>

definition newline_indent :: "nat \<Rightarrow> string" where
  "newline_indent level = CHR 0x0A # replicate (4 * level) CHR '' ''"

text \<open>
  A string is written between double quotes. The characters from the space to the tilde
  stand for themselves, but for the double quote and the backslash, which get a
  backslash before them; the other characters are written as \<open>\b\<close>, \<open>\f\<close>, \<open>\n\<close>, \<open>\r\<close>,
  \<open>\t\<close> or as \<open>\u00\<close> and two lower-case hexadecimal digits.
\<close>

definition hexdigit :: "nat \<Rightarrow> char" where
  "hexdigit d = (if d < 10 then char_of (48 + d) else char_of (87 + d))"

definition escape_char :: "char \<Rightarrow> string" where
  "escape_char c =
     (let n = (of_char c :: nat)
      in if n = 92 then [CHR 0x5C, CHR 0x5C]
         else if n = 34 then [CHR 0x5C, CHR 0x22]
         else if n = 8 then [CHR 0x5C, CHR ''b'']
         else if n = 12 then [CHR 0x5C, CHR ''f'']
         else if n = 10 then [CHR 0x5C, CHR ''n'']
         else if n = 13 then [CHR 0x5C, CHR ''r'']
         else if n = 9 then [CHR 0x5C, CHR ''t'']
         else if n < 32 \<or> 126 < n
           then [CHR 0x5C, CHR ''u'', CHR ''0'', CHR ''0'', hexdigit (n div 16), hexdigit (n mod 16)]
         else [c])"

definition encode_basestring_ascii :: "string \<Rightarrow> string" where
  "encode_basestring_ascii s = CHR 0x22 # concat (map escape_char s) @ [CHR 0x22]"

text \<open>\<open>int.__repr__\<close>: the decimal digits, after a minus sign for a negative number.\<close>

fun digits :: "nat \<Rightarrow> string" where
  "digits n = (if n < 10 then [char_of (48 + n)] else digits (n div 10) @ [char_of (48 + n mod 10)])"

definition intstr :: "int \<Rightarrow> string" where
  "intstr i = (if i < 0 then CHR ''-'' # digits (nat (- i)) else digits (nat i))"

text \<open>
  The encoder at indentation level \<open>level\<close>; \<open>iterencode_list\<close> and \<open>iterencode_dict\<close>
  write the items of a non-empty list or dictionary, at the level of the items.
\<close>

fun iterencode :: "nat \<Rightarrow> pyval \<Rightarrow> string"
  and iterencode_list :: "nat \<Rightarrow> pyval list \<Rightarrow> string"
  and iterencode_dict :: "nat \<Rightarrow> (string \<times> pyval) list \<Rightarrow> string" where
  "iterencode level PyNone = ''null''"
| "iterencode level (PyBool b) = (if b then ''true'' else ''false'')"
| "iterencode level (PyInt i) = intstr i"
| "iterencode level (PyStr s) = encode_basestring_ascii s"
| "iterencode level (PyList []) = ''[]''"
| "iterencode level (PyList (v # lst)) =
     ''['' @ newline_indent (level + 1) @ iterencode_list (level + 1) (v # lst)
       @ newline_indent level @ '']''"
| "iterencode level (PyDict []) = ''{}''"
| "iterencode level (PyDict (item # dct)) =
     ''{'' @ newline_indent (level + 1) @ iterencode_dict (level + 1) (item # dct)
       @ newline_indent level @ ''}''"
| "iterencode_list level [] = []"
| "iterencode_list level [v] = iterencode level v"
| "iterencode_list level (v # w # lst) =
     iterencode level v @ '','' @ newline_indent level @ iterencode_list level (w # lst)"
| "iterencode_dict level [] = []"
| "iterencode_dict level [(key, v)] =
     encode_basestring_ascii key @ '': '' @ iterencode level v"
| "iterencode_dict level ((key, v) # item # dct) =
     encode_basestring_ascii key @ '': '' @ iterencode level v @ '','' @ newline_indent level
       @ iterencode_dict level (item # dct)"

definition json_dumps :: "pyval \<Rightarrow> string" where
  "json_dumps obj = iterencode 0 obj"

subsection \<open>Reading JSON\<close>

text \<open>
  \<open>json.load(f)\<close> is the decoder of the standard library on the text of the file. The
  model follows its scanner: white space is the space, tab, line feed and carriage
  return.
\<close>

definition is_whitespace :: "char \<Rightarrow> bool" where
  "is_whitespace c = (c = CHR '' '' \<or> c = CHR 0x09 \<or> c = CHR 0x0A \<or> c = CHR 0x0D)"

definition skip_whitespace :: "string \<Rightarrow> string" where
  "skip_whitespace s = dropWhile is_whitespace s"

text \<open>
  The four hexadecimal digits after \<open>\u\<close>, and the characters the one-letter escapes stand
  for.
\<close>

definition hexvalue :: "char \<Rightarrow> nat option" where
  "hexvalue c =
     (let n = (of_char c :: nat)
      in if 48 \<le> n \<and> n \<le> 57 then Some (n - 48)
         else if 97 \<le> n \<and> n \<le> 102 then Some (n - 87)
         else if 65 \<le> n \<and> n \<le> 70 then Some (n - 55)
         else None)"

definition decode_uXXXX :: "char \<Rightarrow> char \<Rightarrow> char \<Rightarrow> char \<Rightarrow> nat option" where
  "decode_uXXXX a b c d =
     (case (hexvalue a, hexvalue b, hexvalue c, hexvalue d) of
        (Some h3, Some h2, Some h1, Some h0) \<Rightarrow> Some (4096 * h3 + 256 * h2 + 16 * h1 + h0)
      | _ \<Rightarrow> None)"

definition backslash :: "char \<Rightarrow> char option" where
  "backslash esc =
     (if esc = CHR 0x22 then Some (CHR 0x22)
      else if esc = CHR 0x5C then Some (CHR 0x5C)
      else if esc = CHR ''/'' then Some (CHR ''/'')
      else if esc = CHR ''b'' then Some (CHR 0x08)
      else if esc = CHR ''f'' then Some (CHR 0x0C)
      else if esc = CHR ''n'' then Some (CHR 0x0A)
      else if esc = CHR ''r'' then Some (CHR 0x0D)
      else if esc = CHR ''t'' then Some (CHR 0x09)
      else None)"

text \<open>
  \<open>scanstring\<close> reads a string from behind its opening quote and returns it with the rest
  of the input. A control character below 32 written as itself is an error, as is an
  unknown escape or the end of the input. An escape \<open>\u\<close> for a code point above 255
  leaves the model.
\<close>

fun scanstring :: "string \<Rightarrow> error + (string \<times> string)" where
  "scanstring [] = Inl JSONDecodeError"
| "scanstring (c # cs) =
     (if c = CHR 0x22 then Inr ([], cs)
      else if c = CHR 0x5C then
        (case cs of
           [] \<Rightarrow> Inl JSONDecodeError
         | esc # cs1 \<Rightarrow>
             if esc = CHR ''u'' then
               (case cs1 of
                  h3 # h2 # h1 # h0 # cs2 \<Rightarrow>
                    (case decode_uXXXX h3 h2 h1 h0 of
                       None \<Rightarrow> Inl JSONDecodeError
                     | Some uni \<Rightarrow>
                         if uni < 256 then
                           (case scanstring cs2 of
                              Inl e \<Rightarrow> Inl e
                            | Inr (chunk, rest) \<Rightarrow> Inr (char_of uni # chunk, rest))
                         else Inl OutsideModel)
                | _ \<Rightarrow> Inl JSONDecodeError)
             else
               (case backslash esc of
                  None \<Rightarrow> Inl JSONDecodeError
                | Some char \<Rightarrow>
                    (case scanstring cs1 of
                       Inl e \<Rightarrow> Inl e
                     | Inr (chunk, rest) \<Rightarrow> Inr (char # chunk, rest))))
      else if (of_char c :: nat) < 32 then Inl JSONDecodeError
      else (case scanstring cs of
              Inl e \<Rightarrow> Inl e
            | Inr (chunk, rest) \<Rightarrow> Inr (c # chunk, rest)))"

text \<open>
  A number is an optional minus sign and then a zero or a non-zero digit with the digits
  that follow it. With a fraction or an exponent behind it, it is a floating-point number
  and leaves the model; otherwise it is the integer of these digits. Integers are read
  whatever their length; the limit of the interpreter comes with \<open>match_number_limit\<close>
  below.
\<close>

definition is_digit :: "char \<Rightarrow> bool" where
  "is_digit c = (48 \<le> (of_char c :: nat) \<and> (of_char c :: nat) \<le> 57)"

definition digits_value :: "string \<Rightarrow> nat" where
  "digits_value ds = foldl (\<lambda>n d. 10 * n + (of_char d - 48)) 0 ds"

definition is_frac :: "string \<Rightarrow> bool" where
  "is_frac s = (case s of c # d # _ \<Rightarrow> c = CHR ''.'' \<and> is_digit d | _ \<Rightarrow> False)"

definition is_exp :: "string \<Rightarrow> bool" where
  "is_exp s =
     (case s of
        c # d # ds \<Rightarrow>
          (c = CHR ''e'' \<or> c = CHR ''E'') \<and>
          (is_digit d \<or>
           ((d = CHR ''+'' \<or> d = CHR ''-'') \<and> (case ds of x # _ \<Rightarrow> is_digit x | [] \<Rightarrow> False)))
      | _ \<Rightarrow> False)"

definition match_number :: "string \<Rightarrow> error + (pyval \<times> string)" where
  "match_number s =
     (let negative = (case s of c # _ \<Rightarrow> c = CHR ''-'' | [] \<Rightarrow> False);
          s1 = (if negative then tl s else s);
          integer = (case s1 of
                       [] \<Rightarrow> []
                     | c # cs \<Rightarrow> if c = CHR ''0'' then [c]
                                else if is_digit c then c # takeWhile is_digit cs
                                else []);
          rest = drop (length integer) s1
      in if integer = [] then Inl JSONDecodeError
         else if is_frac rest \<or> is_exp rest then Inl OutsideModel
         else Inr (PyInt (if negative then - int (digits_value integer)
                          else int (digits_value integer)), rest))"

text \<open>
  The dictionary made of the pairs of an object: a key that comes again replaces the
  value and keeps its first place.
\<close>

definition dict_of_pairs :: "(string \<times> pyval) list \<Rightarrow> (string \<times> pyval) list" where
  "dict_of_pairs pairs = foldl (\<lambda>dct (key, v). dict_store key v dct) [] pairs"

text \<open>
  The scanner: \<open>scan_once\<close> reads one value, \<open>parse_array\<close> the items of a list from its
  first item on, \<open>parse_object\<close> the items of an object from the quote of its first key
  on. Each returns what it read and the rest of the input. The recursion is on \<open>fuel\<close>,
  one unit for every call. The recursion limit of the interpreter is not modelled here;
  it comes with \<open>scan_once_limit\<close> below.
\<close>

fun scan_once :: "nat \<Rightarrow> string \<Rightarrow> error + (pyval \<times> string)"
  and parse_array :: "nat \<Rightarrow> string \<Rightarrow> error + (pyval list \<times> string)"
  and parse_object :: "nat \<Rightarrow> string \<Rightarrow> error + ((string \<times> pyval) list \<times> string)" where
  "scan_once 0 s = Inl OutOfFuel"
| "scan_once (Suc fuel) [] = Inl JSONDecodeError"
| "scan_once (Suc fuel) (c # cs) =
     (if c = CHR 0x22 then
        (case scanstring cs of
           Inl e \<Rightarrow> Inl e
         | Inr (s, rest) \<Rightarrow> Inr (PyStr s, rest))
      else if c = CHR ''{'' then
        (case skip_whitespace cs of
           [] \<Rightarrow> Inl JSONDecodeError
         | d # ds \<Rightarrow>
             if d = CHR ''}'' then Inr (PyDict [], ds)
             else (case parse_object fuel (d # ds) of
                     Inl e \<Rightarrow> Inl e
                   | Inr (pairs, rest) \<Rightarrow> Inr (PyDict (dict_of_pairs pairs), rest)))
      else if c = CHR ''['' then
        (case skip_whitespace cs of
           [] \<Rightarrow> Inl JSONDecodeError
         | d # ds \<Rightarrow>
             if d = CHR '']'' then Inr (PyList [], ds)
             else (case parse_array fuel (d # ds) of
                     Inl e \<Rightarrow> Inl e
                   | Inr (values, rest) \<Rightarrow> Inr (PyList values, rest)))
      else if prefix ''null'' (c # cs) then Inr (PyNone, drop 4 (c # cs))
      else if prefix ''true'' (c # cs) then Inr (PyBool True, drop 4 (c # cs))
      else if prefix ''false'' (c # cs) then Inr (PyBool False, drop 5 (c # cs))
      else if prefix ''NaN'' (c # cs) \<or> prefix ''Infinity'' (c # cs)
              \<or> prefix ''-Infinity'' (c # cs) then Inl OutsideModel
      else match_number (c # cs))"
| "parse_array 0 s = Inl OutOfFuel"
| "parse_array (Suc fuel) s =
     (case scan_once fuel s of
        Inl e \<Rightarrow> Inl e
      | Inr (v, rest) \<Rightarrow>
          (case skip_whitespace rest of
             [] \<Rightarrow> Inl JSONDecodeError
           | d # ds \<Rightarrow>
               if d = CHR '']'' then Inr ([v], ds)
               else if d = CHR '','' then
                 (case parse_array fuel (skip_whitespace ds) of
                    Inl e \<Rightarrow> Inl e
                  | Inr (values, rest1) \<Rightarrow> Inr (v # values, rest1))
               else Inl JSONDecodeError))"
| "parse_object 0 s = Inl OutOfFuel"
| "parse_object (Suc fuel) [] = Inl JSONDecodeError"
| "parse_object (Suc fuel) (c # cs) =
     (if c = CHR 0x22 then
        (case scanstring cs of
           Inl e \<Rightarrow> Inl e
         | Inr (key, rest) \<Rightarrow>
             (case skip_whitespace rest of
                [] \<Rightarrow> Inl JSONDecodeError
              | d # ds \<Rightarrow>
                  if d = CHR '':'' then
                    (case scan_once fuel (skip_whitespace ds) of
                       Inl e \<Rightarrow> Inl e
                     | Inr (v, rest1) \<Rightarrow>
                         (case skip_whitespace rest1 of
                            [] \<Rightarrow> Inl JSONDecodeError
                          | x # xs \<Rightarrow>
                              if x = CHR ''}'' then Inr ([(key, v)], xs)
                              else if x = CHR '','' then
                                (case parse_object fuel (skip_whitespace xs) of
                                   Inl e \<Rightarrow> Inl e
                                 | Inr (pairs, rest2) \<Rightarrow> Inr ((key, v) # pairs, rest2))
                              else Inl JSONDecodeError))
                  else Inl JSONDecodeError))
      else Inl JSONDecodeError)"

text \<open>
  The decoder: white space, one value, white space, and then the end of the text. Twice
  the length of the text and one is fuel enough, as \<open>json_loads_errors\<close> shows below.
\<close>

definition json_loads :: "string \<Rightarrow> error + pyval" where
  "json_loads s =
     (case scan_once (2 * length s + 1) (skip_whitespace s) of
        Inl e \<Rightarrow> Inl e
      | Inr (obj, rest) \<Rightarrow> if skip_whitespace rest = [] then Inr obj else Inl JSONDecodeError)"

subsection \<open>Loading and saving\<close>

text \<open>
  The persisted state is the text of \<open>grievances.json\<close>, or \<open>None\<close> while the file does not
  exist. Opening the file for writing creates it. What Python can store of the modelled
  kinds it can write, so \<open>save_grievances\<close> has no error.
\<close>

definition load_grievances :: "string option \<Rightarrow> error + pyval" where
  "load_grievances file =
     (case file of
        Some document \<Rightarrow> json_loads document
      | None \<Rightarrow> Inr (PyList []))"

definition save_grievances :: "pyval \<Rightarrow> string option" where
  "save_grievances grievances = Some (json_dumps grievances)"

subsection \<open>Python dictionaries\<close>

text \<open>A Python dictionary holds each key once, here and in the values inside it.\<close>

fun well_formed :: "pyval \<Rightarrow> bool" where
  "well_formed (PyList lst) = list_all well_formed lst"
| "well_formed (PyDict dct) =
     (distinct (map fst dct) \<and> list_all (\<lambda>item. well_formed (snd item)) dct)"
| "well_formed v = True"

text \<open>
  What may follow the digits of an integer for the integer to end there: the end of the
  text, or a character that is no digit and starts neither a fraction nor an exponent.
\<close>

definition number_end :: "string \<Rightarrow> bool" where
  "number_end r =
     (case r of
        [] \<Rightarrow> True
      | c # _ \<Rightarrow> \<not> is_digit c \<and> c \<noteq> CHR ''.'' \<and> c \<noteq> CHR ''e'' \<and> c \<noteq> CHR ''E'')"

subsection \<open>The limits of the interpreter\<close>





subsection \<open>Well-formed documents\<close>
















section \<open>Substrings and keyword counts\<close>

text \<open>\<open>is_in\<close> is the contiguous-sublist relation of the library.\<close>

lemma is_in_sublist: "is_in word text = sublist word text"
proof (induction "text")
  case Nil
  show ?case by simp
next
  case (Cons c cs)
  show ?case
  proof (cases word)
    case Nil
    then show ?thesis by simp
  next
    case (Cons w ws)
    with Cons.IH show ?thesis by (simp add: sublist_code)
  qed
qed

lemma any_keyword_iff:
  "any_keyword text keywords = (\<exists>k \<in> set keywords. sublist k (lower text))"
  by (simp add: any_keyword_def list_ex_iff is_in_sublist)

lemma scoring_loop_count:
  "scoring_loop text weight keywords score =
     score + weight * int (length (filter (\<lambda>word. sublist word (lower text)) keywords))"
  by (induction "keywords" arbitrary: score) (simp_all add: is_in_sublist algebra_simps)

lemma distinct_urgent_keywords: "distinct urgent_keywords"
  by (simp add: urgent_keywords_def)

lemma distinct_medium_keywords: "distinct medium_keywords"
  by (simp add: medium_keywords_def)

lemma distinct_low_keywords: "distinct low_keywords"
  by (simp add: low_keywords_def)

lemma length_filter_card:
  "distinct xs \<Longrightarrow> length (filter P xs) = card {x \<in> set xs. P x}"
  by (metis distinct_filter distinct_card set_filter)

lemma scoring_loop_card:
  "distinct keywords \<Longrightarrow>
   scoring_loop text weight keywords score =
     score + weight * int (card {word \<in> set keywords. sublist word (lower text)})"
  by (simp add: scoring_loop_count length_filter_card)

text \<open>
  The score before the base and the cap: each list gives its weight times the number of
  its keywords that occur in the lower-cased text, and the two phrases give 25 together.
\<close>

lemma keyword_score_count:
  "keyword_score text =
     40 * int (card {word \<in> set urgent_keywords. sublist word (lower text)}) +
     20 * int (card {word \<in> set medium_keywords. sublist word (lower text)}) +
     5 * int (card {word \<in> set low_keywords. sublist word (lower text)}) +
     (if sublist ''not resolved'' (lower text) \<or> sublist ''again'' (lower text) then 25 else 0)"
  by (simp add: keyword_score_def scoring_loop_card distinct_urgent_keywords
      distinct_medium_keywords distinct_low_keywords is_in_sublist)

lemma keyword_score_nonneg: "0 \<le> keyword_score text"
  by (simp add: keyword_score_count)

section \<open>Properties of the scorer\<close>

text \<open>
  C2. For every text, \<open>grievance_score\<close> is an integer from 50 to 100: the score before
  the base is never negative, the base of 50 is added to it, and the sum is capped at 100.
\<close>

theorem grievance_score_range: "50 \<le> grievance_score text \<and> grievance_score text \<le> 100 \<and>
   0 \<le> keyword_score text \<and> grievance_score text = min (keyword_score text + 50) 100"
  using keyword_score_nonneg [of "text"] by (simp add: grievance_score_def)

text \<open>
  C3. In every one of the three lists, a keyword that is a substring of the lower-cased
  text adds the weight of that list once: the score before the base is 40, 20 and 5
  times the number of keywords of the urgent, medium and low list that occur, plus the
  25 points of the two phrases. A term of two lists adds both weights from one
  occurrence (\<open>urgent\<close>, \<open>critical\<close>, \<open>repair\<close>), and further occurrences add nothing.
\<close>

theorem keyword_score_once_per_list:
  "keyword_score text =
     40 * int (card {word \<in> set urgent_keywords. sublist word (lower text)}) +
     20 * int (card {word \<in> set medium_keywords. sublist word (lower text)}) +
     5 * int (card {word \<in> set low_keywords. sublist word (lower text)}) +
     (if sublist ''not resolved'' (lower text) \<or> sublist ''again'' (lower text) then 25 else 0) \<and>
   keyword_score ''urgent'' = 40 + 20 \<and>
   keyword_score ''critical'' = 40 + 20 \<and>
   keyword_score ''repair'' = 20 + 5 \<and>
   keyword_score ''repair, repair and REPAIR'' = 20 + 5"
proof -
  have "keyword_score ''urgent'' = 40 + 20" by code_simp
  moreover have "keyword_score ''critical'' = 40 + 20" by code_simp
  moreover have "keyword_score ''repair'' = 20 + 5" by code_simp
  moreover have "keyword_score ''repair, repair and REPAIR'' = 20 + 5" by code_simp
  ultimately show ?thesis using keyword_score_count [of "text"] by simp
qed

text \<open>
  C4, as stated, fails: \<open>see you again\<close> contains no keyword of the three lists, and its
  score is 75, for the phrase \<open>again\<close>.
\<close>

theorem score_no_listed_keyword_counterexample:
  "\<not> any_keyword ''see you again'' urgent_keywords \<and>
   \<not> any_keyword ''see you again'' medium_keywords \<and>
   \<not> any_keyword ''see you again'' low_keywords \<and>
   grievance_score ''see you again'' = 75"
  by code_simp

text \<open>
  C4, amended. For every text whose lower-cased form contains no keyword of the three
  lists and neither \<open>not resolved\<close> nor \<open>again\<close>, \<open>grievance_score\<close> is exactly 50.
\<close>

theorem score_no_keyword_no_phrase:
  assumes "\<forall>word \<in> set (urgent_keywords @ medium_keywords @ low_keywords).
             \<not> sublist word (lower text)"
    and "\<not> sublist ''not resolved'' (lower text)" and "\<not> sublist ''again'' (lower text)"
  shows "grievance_score text = 50"
proof -
  from assms(1) have u: "card {word \<in> set urgent_keywords. sublist word (lower text)} = 0"
    by auto
  from assms(1) have m: "card {word \<in> set medium_keywords. sublist word (lower text)} = 0"
    by auto
  from assms(1) have l: "card {word \<in> set low_keywords. sublist word (lower text)} = 0"
    by auto
  have "keyword_score text = 0"
    unfolding keyword_score_count u m l using assms(2,3) by simp
  then show ?thesis by (simp add: grievance_score_def)
qed

theorem score_no_keyword_no_phrase_witness:
  "\<not> any_keyword ''The roof LEAKS'' urgent_keywords \<and>
   \<not> any_keyword ''The roof LEAKS'' medium_keywords \<and>
   \<not> any_keyword ''The roof LEAKS'' low_keywords \<and>
   \<not> sublist ''not resolved'' (lower ''The roof LEAKS'') \<and>
   \<not> sublist ''again'' (lower ''The roof LEAKS'') \<and>
   grievance_score ''The roof LEAKS'' = 50"
proof -
  have u: "\<not> any_keyword ''The roof LEAKS'' urgent_keywords" by code_simp
  have m: "\<not> any_keyword ''The roof LEAKS'' medium_keywords" by code_simp
  have l: "\<not> any_keyword ''The roof LEAKS'' low_keywords" by code_simp
  from u m l
  have a: "\<forall>word \<in> set (urgent_keywords @ medium_keywords @ low_keywords).
      \<not> sublist word (lower ''The roof LEAKS'')"
    by (auto simp: any_keyword_iff)
  have b: "\<not> sublist ''not resolved'' (lower ''The roof LEAKS'')" by code_simp
  have c: "\<not> sublist ''again'' (lower ''The roof LEAKS'')" by code_simp
  from score_no_keyword_no_phrase [OF a b c] u m l b c show ?thesis by blast
qed

section \<open>Properties of the classifier\<close>

lemma categorize_loop_other:
  "(\<forall>i < length items. \<not> any_keyword text (snd (items ! i))) \<Longrightarrow>
   categorize_loop text items = ''Other''"
proof (induction "items")
  case Nil
  show ?case by simp
next
  case (Cons item items)
  from Cons.prems have "\<not> any_keyword text (snd item)" by fastforce
  moreover from Cons.prems have "\<forall>i < length items. \<not> any_keyword text (snd (items ! i))"
    by fastforce
  ultimately show ?case using Cons.IH by (cases item) simp
qed

lemma categorize_loop_first:
  "i < length items \<Longrightarrow> any_keyword text (snd (items ! i)) \<Longrightarrow>
   (\<forall>j < i. \<not> any_keyword text (snd (items ! j))) \<Longrightarrow>
   categorize_loop text items = fst (items ! i)"
proof (induction "items" arbitrary: i)
  case Nil
  then show ?case by simp
next
  case (Cons item items)
  show ?case
  proof (cases i)
    case 0
    with Cons.prems show ?thesis by (cases item) simp
  next
    case (Suc k)
    with Cons.prems have "\<not> any_keyword text (snd item)" by fastforce
    moreover from Suc Cons.prems have "k < length items" "any_keyword text (snd (items ! k))"
      by simp_all
    moreover from Suc Cons.prems have "\<forall>j < k. \<not> any_keyword text (snd (items ! j))"
      by fastforce
    ultimately show ?thesis using Cons.IH [of k] Suc by (cases item) simp
  qed
qed

text \<open>
  C5. The table lists Water Supply, Garbage, Electricity and Road Damage in this order,
  each with its three keywords. \<open>categorize_grievance\<close> returns the category of the first
  entry one of whose keywords is a substring of the lower-cased text, and \<open>Other\<close> when
  no keyword of any entry is.
\<close>

theorem categorize_first_match:
  "map fst categories = [''Water Supply'', ''Garbage'', ''Electricity'', ''Road Damage''] \<and>
   map snd categories =
     [[''water'', ''supply'', ''tap''], [''garbage'', ''trash'', ''waste''],
      [''electric'', ''light'', ''power''], [''road'', ''pothole'', ''crack'']] \<and>
   (\<forall>i < length categories.
      (\<exists>k \<in> set (snd (categories ! i)). sublist k (lower text)) \<and>
      (\<forall>j < i. \<forall>k \<in> set (snd (categories ! j)). \<not> sublist k (lower text)) \<longrightarrow>
      categorize_grievance text = fst (categories ! i)) \<and>
   ((\<forall>i < length categories. \<forall>k \<in> set (snd (categories ! i)). \<not> sublist k (lower text)) \<longrightarrow>
      categorize_grievance text = ''Other'')"
proof -
  have "map fst categories = [''Water Supply'', ''Garbage'', ''Electricity'', ''Road Damage'']"
    by (simp add: categories_def)
  moreover have "map snd categories =
     [[''water'', ''supply'', ''tap''], [''garbage'', ''trash'', ''waste''],
      [''electric'', ''light'', ''power''], [''road'', ''pothole'', ''crack'']]"
    by (simp add: categories_def)
  moreover have "\<forall>i < length categories.
      (\<exists>k \<in> set (snd (categories ! i)). sublist k (lower text)) \<and>
      (\<forall>j < i. \<forall>k \<in> set (snd (categories ! j)). \<not> sublist k (lower text)) \<longrightarrow>
      categorize_grievance text = fst (categories ! i)"
    unfolding categorize_grievance_def
    using categorize_loop_first [of _ categories "text"] by (simp add: any_keyword_iff)
  moreover have "(\<forall>i < length categories. \<forall>k \<in> set (snd (categories ! i)). \<not> sublist k (lower text)) \<longrightarrow>
      categorize_grievance text = ''Other''"
    unfolding categorize_grievance_def
    using categorize_loop_other [of categories "text"] by (simp add: any_keyword_iff)
  ultimately show ?thesis by blast
qed

theorem categorize_first_match_witness:
  "(2::nat) < length categories \<and>
   any_keyword ''No POWER on our road'' (snd (categories ! 2)) \<and>
   \<not> any_keyword ''No POWER on our road'' (snd (categories ! 0)) \<and>
   \<not> any_keyword ''No POWER on our road'' (snd (categories ! 1)) \<and>
   categorize_grievance ''No POWER on our road'' = ''Electricity'' \<and>
   \<not> any_keyword ''the roof leaks'' (snd (categories ! 0)) \<and>
   \<not> any_keyword ''the roof leaks'' (snd (categories ! 1)) \<and>
   \<not> any_keyword ''the roof leaks'' (snd (categories ! 2)) \<and>
   \<not> any_keyword ''the roof leaks'' (snd (categories ! 3)) \<and>
   categorize_grievance ''the roof leaks'' = ''Other''"
proof -
  have len: "length categories = 4" by (simp add: categories_def)
  have a: "any_keyword ''No POWER on our road'' (snd (categories ! 2))" by code_simp
  have b0: "\<not> any_keyword ''No POWER on our road'' (snd (categories ! 0))" by code_simp
  have b1: "\<not> any_keyword ''No POWER on our road'' (snd (categories ! 1))" by code_simp
  have c0: "\<not> any_keyword ''the roof leaks'' (snd (categories ! 0))" by code_simp
  have c1: "\<not> any_keyword ''the roof leaks'' (snd (categories ! 1))" by code_simp
  have c2: "\<not> any_keyword ''the roof leaks'' (snd (categories ! 2))" by code_simp
  have c3: "\<not> any_keyword ''the roof leaks'' (snd (categories ! 3))" by code_simp
  have b: "\<forall>j < (2::nat). \<forall>k \<in> set (snd (categories ! j)).
      \<not> sublist k (lower ''No POWER on our road'')"
    using b0 b1 by (simp add: any_keyword_iff numeral_2_eq_2 less_Suc_eq)
  have c: "\<forall>i < length categories. \<forall>k \<in> set (snd (categories ! i)).
      \<not> sublist k (lower ''the roof leaks'')"
    unfolding len using c0 c1 c2 c3
    by (simp add: any_keyword_iff numeral_eq_Suc less_Suc_eq)
  have d: "fst (categories ! 2) = ''Electricity''" by (simp add: categories_def)
  from a have a': "\<exists>k \<in> set (snd (categories ! 2)). sublist k (lower ''No POWER on our road'')"
    by (simp add: any_keyword_iff)
  have i2: "(2::nat) < length categories" by (simp add: len)
  note first = categorize_first_match [of "''No POWER on our road''",
      THEN conjunct2, THEN conjunct2, THEN conjunct1, rule_format, of 2]
  have "categorize_grievance ''No POWER on our road'' = fst (categories ! 2)"
    by (rule first [OF i2 conjI [OF a' b]])
  with d have e: "categorize_grievance ''No POWER on our road'' = ''Electricity''" by simp
  from categorize_first_match [of "''the roof leaks''"] c
  have f: "categorize_grievance ''the roof leaks'' = ''Other''" by blast
  from len a b0 b1 c0 c1 c2 c3 e f show ?thesis by simp
qed

section \<open>Properties of the action advisor\<close>

text \<open>
  C6. For each of the four known categories \<open>suggest_action\<close> returns the urgent string
  of the category exactly when the priority is above 70 and its routine string
  otherwise; for every other category it returns the generic string, whatever the
  priority.
\<close>

theorem suggest_action_cases:
  "suggest_action ''Water Supply'' priority =
     (if priority > 70 then ''Forward to Jal Nigam for urgent inspection''
      else ''Forward to Jal Nigam for regular check'') \<and>
   suggest_action ''Road Damage'' priority =
     (if priority > 70 then ''Notify PWD for immediate repair''
      else ''Notify PWD for standard check'') \<and>
   suggest_action ''Garbage'' priority =
     (if priority > 70 then ''Alert sanitation department for immediate cleaning''
      else ''Alert sanitation department for routine collection'') \<and>
   suggest_action ''Electricity'' priority =
     (if priority > 70 then ''Notify electricity board for urgent check''
      else ''Notify electricity board for regular maintenance'') \<and>
   (category \<notin> {''Water Supply'', ''Road Damage'', ''Garbage'', ''Electricity''} \<longrightarrow>
      suggest_action category priority = ''Review and assign appropriate department.'')"
  by (simp add: suggest_action_def actions_def)

theorem suggest_action_cases_witness:
  "''Unknown'' \<notin> {''Water Supply'', ''Road Damage'', ''Garbage'', ''Electricity''} \<and>
   suggest_action ''Unknown'' 90 = ''Review and assign appropriate department.'' \<and>
   ''Other'' \<notin> {''Water Supply'', ''Road Damage'', ''Garbage'', ''Electricity''} \<and>
   suggest_action ''Other'' 50 = ''Review and assign appropriate department.'' \<and>
   suggest_action ''Water Supply'' 80 = ''Forward to Jal Nigam for urgent inspection'' \<and>
   suggest_action ''Water Supply'' 50 = ''Forward to Jal Nigam for regular check'' \<and>
   suggest_action ''Water Supply'' 70 = ''Forward to Jal Nigam for regular check'' \<and>
   suggest_action ''Water Supply'' 71 = ''Forward to Jal Nigam for urgent inspection''"
  using suggest_action_cases [of 90 "''Unknown''"] suggest_action_cases [of 50 "''Other''"] suggest_action_cases [of 80 "''Other''"]
    suggest_action_cases [of 70 "''Other''"] suggest_action_cases [of 71 "''Other''"] by simp

section \<open>Properties of the escalation rule\<close>

lemma map_of_dict_store:
  "map_of (dict_store key v items) = (map_of items)(key \<mapsto> v)"
  by (induction "items") (auto simp: fun_eq_iff)

lemma getitem_PyDict:
  "getitem (PyDict items) key = (case map_of items key of None \<Rightarrow> Inl KeyError | Some v \<Rightarrow> Inr v)"
  by (simp add: getitem_def)

lemma getitem_Inr_dict: "getitem d key = Inr v \<Longrightarrow> \<exists>items. d = PyDict items"
  by (cases d) (simp_all add: getitem_def)

lemma setitem_PyDict: "setitem (PyDict items) key v = Inr (PyDict (dict_store key v items))"
  by (simp add: setitem_def)

lemma setitem_Inr_dict: "setitem d key v = Inr d' \<Longrightarrow> \<exists>items. d = PyDict items"
  by (cases d) (simp_all add: setitem_def)

lemma getitem_setitem:
  "setitem d key v = Inr d' \<Longrightarrow> getitem d' k = (if k = key then Inr v else getitem d k)"
  by (cases d) (auto simp: setitem_def getitem_def map_of_dict_store)

lemma auto_escalate_eq:
  assumes "getitem grievance ''Date'' = Inr (PyStr date_string)"
    and "strptime date_string = Some g_date"
    and "getitem grievance ''Status'' = Inr status"
  shows "auto_escalate strptime today grievance =
           (if status = PyStr ''Pending'' \<and> today - g_date > 3
            then (case setitem grievance ''Escalated'' (PyStr ''Yes'') of
                    Inl e \<Rightarrow> Inl e
                  | Inr escalated \<Rightarrow>
                 (case setitem escalated ''Status'' (PyStr ''Escalated'') of
                    Inl e \<Rightarrow> Inl e
                  | Inr escalated \<Rightarrow> Inr (True, escalated)))
            else Inr (False, grievance))"
  using assms by (simp add: auto_escalate_def)

lemma auto_escalate_fires:
  assumes "getitem grievance ''Date'' = Inr (PyStr date_string)"
    and "strptime date_string = Some g_date"
    and "getitem grievance ''Status'' = Inr (PyStr ''Pending'')"
    and "today - g_date > 3"
  shows "\<exists>escalated. auto_escalate strptime today grievance = Inr (True, escalated) \<and>
           getitem escalated ''Status'' = Inr (PyStr ''Escalated'') \<and>
           getitem escalated ''Escalated'' = Inr (PyStr ''Yes'') \<and>
           (\<forall>key. key \<noteq> ''Status'' \<and> key \<noteq> ''Escalated'' \<longrightarrow>
              getitem escalated key = getitem grievance key)"
proof -
  from assms(1) obtain items where d: "grievance = PyDict items"
    using getitem_Inr_dict by blast
  let ?g1 = "PyDict (dict_store ''Escalated'' (PyStr ''Yes'') items)"
  let ?g2 = "PyDict (dict_store ''Status'' (PyStr ''Escalated'')
                (dict_store ''Escalated'' (PyStr ''Yes'') items))"
  have s1: "setitem grievance ''Escalated'' (PyStr ''Yes'') = Inr ?g1"
    by (simp add: d setitem_PyDict)
  have s2: "setitem ?g1 ''Status'' (PyStr ''Escalated'') = Inr ?g2"
    by (simp add: setitem_PyDict)
  have "auto_escalate strptime today grievance = Inr (True, ?g2)"
    using assms s1 s2 by (simp add: auto_escalate_eq [where strptime = strptime, OF assms(1,2,3)])
  moreover have "getitem ?g2 ''Status'' = Inr (PyStr ''Escalated'')"
    using getitem_setitem [OF s2] by simp
  moreover have "getitem ?g2 ''Escalated'' = Inr (PyStr ''Yes'')"
    using getitem_setitem [OF s2] getitem_setitem [OF s1] by simp
  moreover have "\<forall>key. key \<noteq> ''Status'' \<and> key \<noteq> ''Escalated'' \<longrightarrow>
      getitem ?g2 key = getitem grievance key"
    using getitem_setitem [OF s2] getitem_setitem [OF s1] by simp
  ultimately show ?thesis by blast
qed

lemma auto_escalate_Inr:
  assumes "auto_escalate strptime today grievance = Inr (fired, g')"
  shows "\<exists>date_string g_date status.
           getitem grievance ''Date'' = Inr (PyStr date_string) \<and>
           strptime date_string = Some g_date \<and>
           getitem grievance ''Status'' = Inr status \<and>
           fired = (status = PyStr ''Pending'' \<and> today - g_date > 3)"
  using assms
  by (auto simp: auto_escalate_def split: sum.splits pyval.splits option.splits if_splits)

text \<open>
  C1. For a record whose \<open>Date\<close> is a string that \<open>strptime\<close> reads as a date and that
  has a \<open>Status\<close>: when the status is \<open>Pending\<close> and today is more than 3 days after the
  date, \<open>auto_escalate\<close> returns true and the record afterwards has \<open>Status\<close>
  \<open>Escalated\<close> and \<open>Escalated\<close> \<open>Yes\<close>, every other field as before; in every other
  case it returns false and the record is unchanged.
\<close>

theorem auto_escalate_rule:
  assumes "getitem grievance ''Date'' = Inr (PyStr date_string)"
    and "strptime date_string = Some g_date"
    and "getitem grievance ''Status'' = Inr status"
  shows "(status = PyStr ''Pending'' \<and> today - g_date > 3 \<longrightarrow>
            (\<exists>escalated. auto_escalate strptime today grievance = Inr (True, escalated) \<and>
               getitem escalated ''Status'' = Inr (PyStr ''Escalated'') \<and>
               getitem escalated ''Escalated'' = Inr (PyStr ''Yes'') \<and>
               (\<forall>key. key \<noteq> ''Status'' \<and> key \<noteq> ''Escalated'' \<longrightarrow>
                  getitem escalated key = getitem grievance key))) \<and>
         (\<not> (status = PyStr ''Pending'' \<and> today - g_date > 3) \<longrightarrow>
            auto_escalate strptime today grievance = Inr (False, grievance))"
proof (intro conjI impI)
  assume "status = PyStr ''Pending'' \<and> today - g_date > 3"
  with assms show "\<exists>escalated. auto_escalate strptime today grievance = Inr (True, escalated) \<and>
               getitem escalated ''Status'' = Inr (PyStr ''Escalated'') \<and>
               getitem escalated ''Escalated'' = Inr (PyStr ''Yes'') \<and>
               (\<forall>key. key \<noteq> ''Status'' \<and> key \<noteq> ''Escalated'' \<longrightarrow>
                  getitem escalated key = getitem grievance key)"
    using auto_escalate_fires [of grievance date_string strptime g_date today] by simp
next
  assume "\<not> (status = PyStr ''Pending'' \<and> today - g_date > 3)"
  then show "auto_escalate strptime today grievance = Inr (False, grievance)"
    by (auto simp: auto_escalate_eq [where strptime = strptime, OF assms])
qed

theorem auto_escalate_rule_witness:
  "(let strptime = (\<lambda>s. if s = ''2024-01-01'' then Some (738886::int) else None);
        g = PyDict [(''ID'', PyStr ''1a2b3c4d''), (''Date'', PyStr ''2024-01-01''),
                    (''Status'', PyStr ''Pending''), (''Escalated'', PyStr ''No'')]
    in getitem g ''Date'' = Inr (PyStr ''2024-01-01'') \<and>
       strptime ''2024-01-01'' = Some 738886 \<and>
       getitem g ''Status'' = Inr (PyStr ''Pending'') \<and>
       (\<exists>escalated. auto_escalate strptime 738891 g = Inr (True, escalated) \<and>
          getitem escalated ''Status'' = Inr (PyStr ''Escalated'') \<and>
          getitem escalated ''Escalated'' = Inr (PyStr ''Yes'') \<and>
          (\<forall>key. key \<noteq> ''Status'' \<and> key \<noteq> ''Escalated'' \<longrightarrow>
             getitem escalated key = getitem g key)) \<and>
       auto_escalate strptime 738887 g = Inr (False, g))"
proof -
  let ?sp = "\<lambda>s. if s = ''2024-01-01'' then Some (738886::int) else None"
  let ?g = "PyDict [(''ID'', PyStr ''1a2b3c4d''), (''Date'', PyStr ''2024-01-01''),
                    (''Status'', PyStr ''Pending''), (''Escalated'', PyStr ''No'')]"
  have h1: "getitem ?g ''Date'' = Inr (PyStr ''2024-01-01'')" by (simp add: getitem_def)
  have h2: "?sp ''2024-01-01'' = Some 738886" by simp
  have h3: "getitem ?g ''Status'' = Inr (PyStr ''Pending'')" by (simp add: getitem_def)
  from auto_escalate_rule [where strptime = ?sp and today = 738891, OF h1 h2 h3]
    auto_escalate_rule [where strptime = ?sp and today = 738887, OF h1 h2 h3] h1 h3
  show ?thesis unfolding Let_def by simp
qed

section \<open>Properties of the status update\<close>

lemma auto_escalate_unfired:
  "auto_escalate strptime today grievance = Inr (False, g') \<Longrightarrow> g' = grievance"
  by (auto simp: auto_escalate_def split: sum.splits pyval.splits option.splits if_splits)

lemma auto_escalate_fired:
  assumes "auto_escalate strptime today grievance = Inr (True, g')"
  shows "getitem g' ''Status'' = Inr (PyStr ''Escalated'') \<and>
         getitem g' ''Escalated'' = Inr (PyStr ''Yes'') \<and>
         (\<forall>key. key \<noteq> ''Status'' \<and> key \<noteq> ''Escalated'' \<longrightarrow>
            getitem g' key = getitem grievance key)"
proof -
  from auto_escalate_Inr [OF assms] obtain date_string g_date status where
    h: "getitem grievance ''Date'' = Inr (PyStr date_string)" "strptime date_string = Some g_date"
       "getitem grievance ''Status'' = Inr status"
       "status = PyStr ''Pending'' \<and> today - g_date > 3"
    by auto
  from auto_escalate_fires [of grievance date_string strptime g_date today] h assms
  show ?thesis by auto
qed

lemma update_status_length:
  "update_status strptime today selected_id new_status gs = Inr gs' \<Longrightarrow>
   length gs' = length gs"
  by (induction gs arbitrary: gs')
     (auto split: sum.splits if_splits prod.splits)

lemma update_status_Cons:
  assumes "update_status strptime today selected_id new_status (g # gs) = Inr gs'"
  shows "\<exists>g' rest. gs' = g' # rest \<and>
           update_status strptime today selected_id new_status gs = Inr rest \<and>
           (getitem g ''ID'' = Inr (PyStr selected_id) \<longrightarrow>
              (\<exists>g1 fired. setitem g ''Status'' (PyStr new_status) = Inr g1 \<and>
                 auto_escalate strptime today g1 = Inr (fired, g'))) \<and>
           (getitem g ''ID'' \<noteq> Inr (PyStr selected_id) \<longrightarrow> g' = g)"
  using assms by (auto split: sum.splits if_splits prod.splits)

lemma update_status_nth:
  assumes "update_status strptime today selected_id new_status gs = Inr gs'"
    and "i < length gs"
  shows "(getitem (gs ! i) ''ID'' = Inr (PyStr selected_id) \<longrightarrow>
            (\<exists>g1 fired. setitem (gs ! i) ''Status'' (PyStr new_status) = Inr g1 \<and>
               auto_escalate strptime today g1 = Inr (fired, gs' ! i))) \<and>
         (getitem (gs ! i) ''ID'' \<noteq> Inr (PyStr selected_id) \<longrightarrow> gs' ! i = gs ! i)"
  using assms
proof (induction gs arbitrary: gs' i)
  case Nil
  then show ?case by simp
next
  case (Cons g gs)
  from update_status_Cons [OF Cons.prems(1)] obtain g' rest where
    r: "gs' = g' # rest" "update_status strptime today selected_id new_status gs = Inr rest"
    and h: "getitem g ''ID'' = Inr (PyStr selected_id) \<longrightarrow>
              (\<exists>g1 fired. setitem g ''Status'' (PyStr new_status) = Inr g1 \<and>
                 auto_escalate strptime today g1 = Inr (fired, g'))"
           "getitem g ''ID'' \<noteq> Inr (PyStr selected_id) \<longrightarrow> g' = g"
    by blast
  show ?case
  proof (cases i)
    case 0
    with r h show ?thesis by simp
  next
    case (Suc k)
    with Cons.prems(2) have "k < length gs" by simp
    from Cons.IH [OF r(2) this] show ?thesis using Suc r(1) by simp
  qed
qed

lemma auto_escalate_returns:
  assumes "getitem grievance ''Date'' = Inr (PyStr date_string)"
    and "strptime date_string = Some g_date"
    and "getitem grievance ''Status'' = Inr status"
  shows "\<exists>fired g'. auto_escalate strptime today grievance = Inr (fired, g')"
proof (cases "status = PyStr ''Pending'' \<and> today - g_date > 3")
  case True
  with auto_escalate_fires [of grievance date_string strptime g_date today] assms
  show ?thesis by blast
next
  case False
  then have "auto_escalate strptime today grievance = Inr (False, grievance)"
    by (auto simp: auto_escalate_eq [where strptime = strptime, OF assms])
  then show ?thesis by blast
qed

lemma update_status_returns:
  assumes "\<forall>g \<in> set gs. (\<exists>ident. getitem g ''ID'' = Inr ident) \<and>
             (getitem g ''ID'' = Inr (PyStr selected_id) \<longrightarrow>
                (\<exists>date_string g_date. getitem g ''Date'' = Inr (PyStr date_string) \<and>
                   strptime date_string = Some g_date))"
  shows "\<exists>gs'. update_status strptime today selected_id new_status gs = Inr gs'"
  using assms
proof (induction gs)
  case Nil
  show ?case by simp
next
  case (Cons g gs)
  then obtain rest where r: "update_status strptime today selected_id new_status gs = Inr rest"
    by auto
  from Cons.prems obtain ident where ident: "getitem g ''ID'' = Inr ident" by auto
  show ?case
  proof (cases "ident = PyStr selected_id")
    case False
    with ident r show ?thesis by simp
  next
    case True
    with Cons.prems ident obtain date_string g_date where
      dt: "getitem g ''Date'' = Inr (PyStr date_string)" "strptime date_string = Some g_date"
      by auto
    from ident obtain items where g: "g = PyDict items" using getitem_Inr_dict by blast
    let ?g1 = "PyDict (dict_store ''Status'' (PyStr new_status) items)"
    have s: "setitem g ''Status'' (PyStr new_status) = Inr ?g1"
      by (simp add: g setitem_PyDict)
    have "getitem ?g1 ''Date'' = Inr (PyStr date_string)"
      using getitem_setitem [OF s] dt(1) by simp
    moreover have "getitem ?g1 ''Status'' = Inr (PyStr new_status)"
      using getitem_setitem [OF s] by simp
    ultimately obtain fired g2 where "auto_escalate strptime today ?g1 = Inr (fired, g2)"
      using auto_escalate_returns [of ?g1 date_string strptime g_date "PyStr new_status" today] dt(2)
      by blast
    with True ident r s show ?thesis by simp
  qed
qed

lemma update_status_selected:
  assumes "update_status strptime today selected_id new_status gs = Inr gs'"
    and "i < length gs"
    and "getitem (gs ! i) ''ID'' = Inr (PyStr selected_id)"
  shows "(\<exists>g1 fired. setitem (gs ! i) ''Status'' (PyStr new_status) = Inr g1 \<and>
            auto_escalate strptime today g1 = Inr (fired, gs' ! i)) \<and>
         (new_status = ''Pending'' \<and>
          (\<exists>date_string g_date. getitem (gs ! i) ''Date'' = Inr (PyStr date_string) \<and>
             strptime date_string = Some g_date \<and> today - g_date > 3) \<longrightarrow>
            getitem (gs' ! i) ''Status'' = Inr (PyStr ''Escalated'') \<and>
            getitem (gs' ! i) ''Escalated'' = Inr (PyStr ''Yes'')) \<and>
         (new_status = ''Resolved'' \<or> new_status = ''Escalated'' \<longrightarrow>
            getitem (gs' ! i) ''Status'' = Inr (PyStr new_status) \<and>
            (\<forall>key. key \<noteq> ''Status'' \<longrightarrow> getitem (gs' ! i) key = getitem (gs ! i) key))"
proof -
  from update_status_nth [OF assms(1,2)] assms(3) obtain g1 fired where
    s: "setitem (gs ! i) ''Status'' (PyStr new_status) = Inr g1"
    and a: "auto_escalate strptime today g1 = Inr (fired, gs' ! i)"
    by blast
  have st: "getitem g1 ''Status'' = Inr (PyStr new_status)"
    using getitem_setitem [OF s] by simp
  have other: "\<And>key. key \<noteq> ''Status'' \<Longrightarrow> getitem g1 key = getitem (gs ! i) key"
    using getitem_setitem [OF s] by simp
  from auto_escalate_Inr [OF a] st obtain date_string g_date where
    d: "getitem g1 ''Date'' = Inr (PyStr date_string)" "strptime date_string = Some g_date"
    and f: "fired = (new_status = ''Pending'' \<and> today - g_date > 3)"
    by auto
  have d': "getitem (gs ! i) ''Date'' = Inr (PyStr date_string)"
    using d(1) other [of "''Date''"] by simp
  have "getitem (gs' ! i) ''Status'' = Inr (PyStr ''Escalated'') \<and>
        getitem (gs' ! i) ''Escalated'' = Inr (PyStr ''Yes'')"
    if "new_status = ''Pending''"
      and "\<exists>date_string g_date. getitem (gs ! i) ''Date'' = Inr (PyStr date_string) \<and>
             strptime date_string = Some g_date \<and> today - g_date > 3"
  proof -
    from that(2) d' d(2) have "today - g_date > 3" by auto
    with f that(1) a have "auto_escalate strptime today g1 = Inr (True, gs' ! i)" by simp
    from auto_escalate_fired [OF this] show ?thesis by simp
  qed
  moreover have "getitem (gs' ! i) ''Status'' = Inr (PyStr new_status) \<and>
        (\<forall>key. key \<noteq> ''Status'' \<longrightarrow> getitem (gs' ! i) key = getitem (gs ! i) key)"
    if "new_status = ''Resolved'' \<or> new_status = ''Escalated''"
  proof -
    from that f have "\<not> fired" by auto
    with a have "gs' ! i = g1"
      using auto_escalate_unfired [of strptime today g1 "gs' ! i"] by simp
    with st other show ?thesis by simp
  qed
  ultimately show ?thesis using s a by blast
qed

text \<open>
  C9. The field \<open>Escalated\<close> is only ever raised.
  \<^item> \<open>auto_escalate\<close> leaves the record as it is when it returns false; when it returns
    true the field is \<open>Yes\<close>, and the status was \<open>Pending\<close> and the date more than 3 days
    old.
  \<^item> The status update keeps a \<open>Yes\<close>, and where it changes the field, the field becomes
    \<open>Yes\<close>, the record has the selected \<open>ID\<close>, the chosen status is \<open>Pending\<close> and the
    date is more than 3 days old.
  \<^item> A submission leaves the records that were there as they are, and the record it adds
    has \<open>Escalated\<close> \<open>No\<close>.
\<close>

theorem escalated_only_raised:
  "(auto_escalate strptime today g = Inr (fired, g') \<longrightarrow>
      (fired \<longrightarrow> getitem g' ''Escalated'' = Inr (PyStr ''Yes'') \<and>
         getitem g ''Status'' = Inr (PyStr ''Pending'') \<and>
         (\<exists>date_string g_date. getitem g ''Date'' = Inr (PyStr date_string) \<and>
            strptime date_string = Some g_date \<and> today - g_date > 3)) \<and>
      (\<not> fired \<longrightarrow> g' = g)) \<and>
   (update_status strptime today selected_id new_status gs = Inr gs' \<longrightarrow>
      length gs' = length gs \<and>
      (\<forall>i < length gs.
         (getitem (gs ! i) ''Escalated'' = Inr (PyStr ''Yes'') \<longrightarrow>
            getitem (gs' ! i) ''Escalated'' = Inr (PyStr ''Yes'')) \<and>
         (getitem (gs' ! i) ''Escalated'' \<noteq> getitem (gs ! i) ''Escalated'' \<longrightarrow>
            getitem (gs' ! i) ''Escalated'' = Inr (PyStr ''Yes'') \<and>
            new_status = ''Pending'' \<and>
            getitem (gs ! i) ''ID'' = Inr (PyStr selected_id) \<and>
            (\<exists>date_string g_date. getitem (gs ! i) ''Date'' = Inr (PyStr date_string) \<and>
               strptime date_string = Some g_date \<and> today - g_date > 3)))) \<and>
   take (length gs) (submit_grievance s gs) = gs \<and>
   (\<forall>i. length gs \<le> i \<and> i < length (submit_grievance s gs) \<longrightarrow>
      getitem (submit_grievance s gs ! i) ''Escalated'' = Inr (PyStr ''No''))"
proof -
  have rule: "getitem g' ''Escalated'' = Inr (PyStr ''Yes'') \<and>
         getitem g ''Status'' = Inr (PyStr ''Pending'') \<and>
         (\<exists>date_string g_date. getitem g ''Date'' = Inr (PyStr date_string) \<and>
            strptime date_string = Some g_date \<and> today - g_date > 3)"
    if "auto_escalate strptime today g = Inr (True, g')" for g g'
    using auto_escalate_fired [OF that] auto_escalate_Inr [OF that] by auto
  have a: "auto_escalate strptime today g = Inr (fired, g') \<longrightarrow>
      (fired \<longrightarrow> getitem g' ''Escalated'' = Inr (PyStr ''Yes'') \<and>
         getitem g ''Status'' = Inr (PyStr ''Pending'') \<and>
         (\<exists>date_string g_date. getitem g ''Date'' = Inr (PyStr date_string) \<and>
            strptime date_string = Some g_date \<and> today - g_date > 3)) \<and>
      (\<not> fired \<longrightarrow> g' = g)"
    using rule [of g g'] auto_escalate_unfired [of strptime today g g'] by auto
  have u: "length gs' = length gs \<and>
      (\<forall>i < length gs.
         (getitem (gs ! i) ''Escalated'' = Inr (PyStr ''Yes'') \<longrightarrow>
            getitem (gs' ! i) ''Escalated'' = Inr (PyStr ''Yes'')) \<and>
         (getitem (gs' ! i) ''Escalated'' \<noteq> getitem (gs ! i) ''Escalated'' \<longrightarrow>
            getitem (gs' ! i) ''Escalated'' = Inr (PyStr ''Yes'') \<and>
            new_status = ''Pending'' \<and>
            getitem (gs ! i) ''ID'' = Inr (PyStr selected_id) \<and>
            (\<exists>date_string g_date. getitem (gs ! i) ''Date'' = Inr (PyStr date_string) \<and>
               strptime date_string = Some g_date \<and> today - g_date > 3)))"
    if upd: "update_status strptime today selected_id new_status gs = Inr gs'"
  proof (intro conjI allI impI)
    show "length gs' = length gs" using update_status_length [OF upd] .
  next
    fix i assume i: "i < length gs"
    note nth = update_status_nth [OF upd i]
    have cases: "gs' ! i = gs ! i \<or>
      (getitem (gs ! i) ''ID'' = Inr (PyStr selected_id) \<and>
       (\<exists>g1. setitem (gs ! i) ''Status'' (PyStr new_status) = Inr g1 \<and>
          (gs' ! i = g1 \<or> auto_escalate strptime today g1 = Inr (True, gs' ! i))))"
    proof (cases "getitem (gs ! i) ''ID'' = Inr (PyStr selected_id)")
      case False
      with nth show ?thesis by simp
    next
      case True
      with nth obtain g1 fired where
        s: "setitem (gs ! i) ''Status'' (PyStr new_status) = Inr g1"
        and e: "auto_escalate strptime today g1 = Inr (fired, gs' ! i)"
        by blast
      show ?thesis
      proof (cases fired)
        case True
        with e have "auto_escalate strptime today g1 = Inr (True, gs' ! i)" by simp
        with s \<open>getitem (gs ! i) ''ID'' = Inr (PyStr selected_id)\<close> show ?thesis by blast
      next
        case False
        with e have "gs' ! i = g1"
          using auto_escalate_unfired [of strptime today g1 "gs' ! i"] by simp
        with s \<open>getitem (gs ! i) ''ID'' = Inr (PyStr selected_id)\<close> show ?thesis by blast
      qed
    qed
    have esc_set: "getitem g1 ''Escalated'' = getitem (gs ! i) ''Escalated''"
      if "setitem (gs ! i) ''Status'' (PyStr new_status) = Inr g1" for g1
      using getitem_setitem [OF that] by simp
    {
      assume y: "getitem (gs ! i) ''Escalated'' = Inr (PyStr ''Yes'')"
      from cases show "getitem (gs' ! i) ''Escalated'' = Inr (PyStr ''Yes'')"
        using y esc_set rule by metis
    }
    {
      assume ch: "getitem (gs' ! i) ''Escalated'' \<noteq> getitem (gs ! i) ''Escalated''"
      with cases esc_set obtain g1 where
        idm: "getitem (gs ! i) ''ID'' = Inr (PyStr selected_id)"
        and s: "setitem (gs ! i) ''Status'' (PyStr new_status) = Inr g1"
        and e: "auto_escalate strptime today g1 = Inr (True, gs' ! i)"
        by metis
      from rule [OF e] obtain date_string g_date where
        y: "getitem (gs' ! i) ''Escalated'' = Inr (PyStr ''Yes'')"
        and p: "getitem g1 ''Status'' = Inr (PyStr ''Pending'')"
        and d: "getitem g1 ''Date'' = Inr (PyStr date_string)"
          "strptime date_string = Some g_date" "today - g_date > 3"
        by blast
      from p getitem_setitem [OF s] have ns: "new_status = ''Pending''" by simp
      from d(1) getitem_setitem [OF s]
      have "getitem (gs ! i) ''Date'' = Inr (PyStr date_string)" by simp
      with d(2,3) have dd: "\<exists>date_string g_date.
          getitem (gs ! i) ''Date'' = Inr (PyStr date_string) \<and>
          strptime date_string = Some g_date \<and> today - g_date > 3" by blast
      show "getitem (gs' ! i) ''Escalated'' = Inr (PyStr ''Yes'')" by (rule y)
      show "new_status = ''Pending''" by (rule ns)
      show "getitem (gs ! i) ''ID'' = Inr (PyStr selected_id)" by (rule idm)
      show "\<exists>date_string g_date.
          getitem (gs ! i) ''Date'' = Inr (PyStr date_string) \<and>
          strptime date_string = Some g_date \<and> today - g_date > 3" by (rule dd)
    }
  qed
  have s1: "take (length gs) (submit_grievance s gs) = gs"
    by (simp add: submit_grievance_def)
  have s2: "\<forall>i. length gs \<le> i \<and> i < length (submit_grievance s gs) \<longrightarrow>
      getitem (submit_grievance s gs ! i) ''Escalated'' = Inr (PyStr ''No'')"
  proof (intro allI impI)
    fix i assume i: "length gs \<le> i \<and> i < length (submit_grievance s gs)"
    then have "submit_grievance s gs = gs @ [new_grievance s]" "i = length gs"
      by (auto simp: submit_grievance_def split: if_splits)
    then show "getitem (submit_grievance s gs ! i) ''Escalated'' = Inr (PyStr ''No'')"
      by (simp add: new_grievance_def getitem_def)
  qed
  from a u s1 s2 show ?thesis by blast
qed

theorem escalated_only_raised_witness:
  "(let strptime = (\<lambda>s. if s = ''2024-01-01'' then Some (738886::int) else None);
        y = PyDict [(''ID'', PyStr ''99887766''), (''Date'', PyStr ''2024-01-01''),
                    (''Status'', PyStr ''Resolved''), (''Escalated'', PyStr ''Yes'')];
        g = PyDict [(''ID'', PyStr ''1a2b3c4d''), (''Date'', PyStr ''2024-01-01''),
                    (''Status'', PyStr ''Pending''), (''Escalated'', PyStr ''No'')];
        g' = PyDict [(''ID'', PyStr ''1a2b3c4d''), (''Date'', PyStr ''2024-01-01''),
                    (''Status'', PyStr ''Escalated''), (''Escalated'', PyStr ''Yes'')];
        s = \<lparr>name = ''Asha'', grievance_date = ''2024-01-05'',
             grievance_text = ''urgent water leak not resolved again'',
             grievance_id = ''0f0e0d0c'', image_path = None, doc_path = None\<rparr>
    in auto_escalate strptime 738891 g = Inr (True, g') \<and>
       getitem g' ''Escalated'' = Inr (PyStr ''Yes'') \<and>
       getitem g ''Status'' = Inr (PyStr ''Pending'') \<and>
       update_status strptime 738891 ''1a2b3c4d'' ''Pending'' [y, g] = Inr [y, g'] \<and>
       (0::nat) < length [y, g] \<and>
       getitem ([y, g] ! 0) ''Escalated'' = Inr (PyStr ''Yes'') \<and>
       getitem ([y, g'] ! 0) ''Escalated'' = Inr (PyStr ''Yes'') \<and>
       (1::nat) < length [y, g] \<and>
       getitem ([y, g'] ! 1) ''Escalated'' \<noteq> getitem ([y, g] ! 1) ''Escalated'' \<and>
       getitem ([y, g'] ! 1) ''Escalated'' = Inr (PyStr ''Yes'') \<and>
       getitem ([y, g] ! 1) ''ID'' = Inr (PyStr ''1a2b3c4d'') \<and>
       length [y, g] \<le> (2::nat) \<and> (2::nat) < length (submit_grievance s [y, g]) \<and>
       getitem (submit_grievance s [y, g] ! 2) ''Escalated'' = Inr (PyStr ''No''))"
proof -
  let ?sp = "\<lambda>s. if s = ''2024-01-01'' then Some (738886::int) else None"
  let ?y = "PyDict [(''ID'', PyStr ''99887766''), (''Date'', PyStr ''2024-01-01''),
                    (''Status'', PyStr ''Resolved''), (''Escalated'', PyStr ''Yes'')]"
  let ?g = "PyDict [(''ID'', PyStr ''1a2b3c4d''), (''Date'', PyStr ''2024-01-01''),
                    (''Status'', PyStr ''Pending''), (''Escalated'', PyStr ''No'')]"
  let ?g' = "PyDict [(''ID'', PyStr ''1a2b3c4d''), (''Date'', PyStr ''2024-01-01''),
                    (''Status'', PyStr ''Escalated''), (''Escalated'', PyStr ''Yes'')]"
  let ?s = "\<lparr>name = ''Asha'', grievance_date = ''2024-01-05'',
             grievance_text = ''urgent water leak not resolved again'',
             grievance_id = ''0f0e0d0c'', image_path = None, doc_path = None\<rparr>"
  have a: "auto_escalate ?sp 738891 ?g = Inr (True, ?g')"
    by (simp add: getitem_def setitem_def auto_escalate_def)
  have u: "update_status ?sp 738891 ''1a2b3c4d'' ''Pending'' [?y, ?g] = Inr [?y, ?g']"
    by (simp add: getitem_def setitem_def auto_escalate_def)
  have y0: "getitem ([?y, ?g] ! 0) ''Escalated'' = Inr (PyStr ''Yes'')"
    by (simp add: getitem_def)
  have ch: "getitem ([?y, ?g'] ! 1) ''Escalated'' \<noteq> getitem ([?y, ?g] ! 1) ''Escalated''"
    by (simp add: getitem_def)
  have len: "length [?y, ?g] \<le> (2::nat) \<and> (2::nat) < length (submit_grievance ?s [?y, ?g])"
    by (simp add: submit_grievance_def)
  note t = escalated_only_raised [where strptime = ?sp and today = 738891 and g = ?g and g' = ?g' and fired = True
      and selected_id = "''1a2b3c4d''" and new_status = "''Pending''" and gs = "[?y, ?g]"
      and gs' = "[?y, ?g']" and s = ?s]
  from t a have 1: "getitem ?g' ''Escalated'' = Inr (PyStr ''Yes'') \<and>
      getitem ?g ''Status'' = Inr (PyStr ''Pending'')" by blast
  from t u have all: "\<forall>i < length [?y, ?g].
         (getitem ([?y, ?g] ! i) ''Escalated'' = Inr (PyStr ''Yes'') \<longrightarrow>
            getitem ([?y, ?g'] ! i) ''Escalated'' = Inr (PyStr ''Yes'')) \<and>
         (getitem ([?y, ?g'] ! i) ''Escalated'' \<noteq> getitem ([?y, ?g] ! i) ''Escalated'' \<longrightarrow>
            getitem ([?y, ?g'] ! i) ''Escalated'' = Inr (PyStr ''Yes'') \<and>
            getitem ([?y, ?g] ! i) ''ID'' = Inr (PyStr ''1a2b3c4d''))" by blast
  from all y0 have 2: "getitem ([?y, ?g'] ! 0) ''Escalated'' = Inr (PyStr ''Yes'')"
    by (simp del: nth_Cons_0)
  have i1: "(1::nat) < length [?y, ?g]" by simp
  from all i1 ch have 3: "getitem ([?y, ?g'] ! 1) ''Escalated'' = Inr (PyStr ''Yes'') \<and>
            getitem ([?y, ?g] ! 1) ''ID'' = Inr (PyStr ''1a2b3c4d'')" by blast
  from t len have 4: "getitem (submit_grievance ?s [?y, ?g] ! 2) ''Escalated'' = Inr (PyStr ''No'')"
    by blast
  from a u y0 ch len 1 2 3 4 show ?thesis unfolding Let_def by simp
qed

section \<open>Reading back what was written\<close>

subsection \<open>Strings\<close>

lemma char_eq_nat: "(c = d) = ((of_char c :: nat) = of_char d)"
  by (simp add: of_char_eq_iff)

lemma hexvalue_hexdigit: "d < 16 \<Longrightarrow> hexvalue (hexdigit d) = Some d"
  by (simp add: hexvalue_def hexdigit_def Let_def)

lemma decode_escape:
  "decode_uXXXX (CHR ''0'') (CHR ''0'') (hexdigit ((of_char c :: nat) div 16))
     (hexdigit ((of_char c :: nat) mod 16)) = Some (of_char c)"
proof -
  have "(of_char c :: nat) < 256" by simp
  then have "(of_char c :: nat) div 16 < 16" by (simp add: less_mult_imp_div_less)
  moreover have "(of_char c :: nat) mod 16 < 16" by simp
  moreover have "hexvalue (CHR ''0'') = Some 0" by (simp add: hexvalue_def)
  ultimately show ?thesis by (simp add: decode_uXXXX_def hexvalue_hexdigit)
qed

lemma scanstring_escape_char:
  "scanstring (escape_char c @ t) =
     (case scanstring t of Inl e \<Rightarrow> Inl e | Inr (chunk, rest) \<Rightarrow> Inr (c # chunk, rest))"
proof -
  let ?n = "of_char c :: nat"
  consider "?n = 92" | "?n = 34" | "?n = 8" | "?n = 12" | "?n = 10" | "?n = 13" | "?n = 9"
    | "?n \<notin> {92, 34, 8, 12, 10, 13, 9}" "?n < 32 \<or> 126 < ?n"
    | "?n \<notin> {92, 34, 8, 12, 10, 13, 9}" "\<not> (?n < 32 \<or> 126 < ?n)"
    by blast
  then show ?thesis
  proof cases
    case 1
    then have c: "c = CHR 0x5C" by (simp add: char_eq_nat)
    show ?thesis unfolding c by (simp add: escape_char_def backslash_def)
  next
    case 2
    then have c: "c = CHR 0x22" by (simp add: char_eq_nat)
    show ?thesis unfolding c by (simp add: escape_char_def backslash_def)
  next
    case 3
    then have c: "c = CHR 0x08" by (simp add: char_eq_nat)
    show ?thesis unfolding c by (simp add: escape_char_def backslash_def)
  next
    case 4
    then have c: "c = CHR 0x0C" by (simp add: char_eq_nat)
    show ?thesis unfolding c by (simp add: escape_char_def backslash_def)
  next
    case 5
    then have c: "c = CHR 0x0A" by (simp add: char_eq_nat)
    show ?thesis unfolding c by (simp add: escape_char_def backslash_def)
  next
    case 6
    then have c: "c = CHR 0x0D" by (simp add: char_eq_nat)
    show ?thesis unfolding c by (simp add: escape_char_def backslash_def)
  next
    case 7
    then have c: "c = CHR 0x09" by (simp add: char_eq_nat)
    show ?thesis unfolding c by (simp add: escape_char_def backslash_def)
  next
    case 8
    then have e: "escape_char c =
        [CHR 0x5C, CHR ''u'', CHR ''0'', CHR ''0'', hexdigit (?n div 16), hexdigit (?n mod 16)]"
      by (simp add: escape_char_def Let_def)
    show ?thesis by (simp add: e decode_escape split: sum.split)
  next
    case 9
    then have e: "escape_char c = [c]" by (simp add: escape_char_def Let_def)
    from 9 have "c \<noteq> CHR 0x22" "c \<noteq> CHR 0x5C" by (auto simp: char_eq_nat)
    with 9 show ?thesis by (simp add: e)
  qed
qed

lemma scanstring_encode:
  "scanstring (concat (map escape_char s) @ CHR 0x22 # r) = Inr (s, r)"
  by (induction s) (simp_all add: scanstring_escape_char)

lemma skip_whitespace_newline_indent:
  "skip_whitespace (newline_indent level @ r) = skip_whitespace r"
proof -
  have "skip_whitespace (replicate n CHR '' '' @ r) = skip_whitespace r" for n
    by (induction n) (simp_all add: skip_whitespace_def is_whitespace_def)
  then show ?thesis by (simp add: newline_indent_def skip_whitespace_def is_whitespace_def)
qed

lemma skip_whitespace_Cons:
  "\<not> is_whitespace c \<Longrightarrow> skip_whitespace (c # r) = c # r"
  by (simp add: skip_whitespace_def)

subsection \<open>Integers\<close>
declare digits.simps [simp del]

lemma is_digit_char_of: "(d::nat) < 10 \<Longrightarrow> is_digit (char_of (48 + d))"
  by (simp add: is_digit_def)

lemma digits_all: "c \<in> set (digits n) \<Longrightarrow> is_digit c"
proof (induction n arbitrary: c rule: digits.induct)
  case (1 n)
  show ?case
  proof (cases "n < 10")
    case True
    with "1.prems" show ?thesis by (simp add: digits.simps [of n] is_digit_char_of)
  next
    case False
    with "1.prems" "1.IH" show ?thesis
      by (auto simp: digits.simps [of n] is_digit_char_of)
  qed
qed

lemma digits_nonempty: "digits n \<noteq> []"
  by (subst digits.simps) simp

lemma digits_zero: "digits 0 = ''0''"
  by (simp add: digits.simps [of 0] char_eq_nat)

lemma digits_hd_zero: "digits n = c # cs \<Longrightarrow> c = CHR ''0'' \<Longrightarrow> n = 0"
proof (induction n arbitrary: c cs rule: digits.induct)
  case (1 n)
  show ?case
  proof (cases "n < 10")
    case True
    with "1.prems" have "char_of (48 + n) = CHR ''0''" by (simp add: digits.simps [of n])
    then have "(of_char (char_of (48 + n)) :: nat) = 48" by simp
    with True show ?thesis by simp
  next
    case False
    obtain d ds where d: "digits (n div 10) = d # ds"
      using digits_nonempty [of "n div 10"] by (cases "digits (n div 10)") auto
    with False "1.prems" have "d = CHR ''0''" by (simp add: digits.simps [of n])
    with "1.IH" [OF False d] have "n div 10 = 0" by simp
    with False show ?thesis by simp
  qed
qed

lemma digits_value_snoc:
  "digits_value (ds @ [d]) = 10 * digits_value ds + (of_char d - 48)"
  by (simp add: digits_value_def)

lemma digits_value_digits: "digits_value (digits n) = n"
proof (induction n rule: digits.induct)
  case (1 n)
  show ?case
  proof (cases "n < 10")
    case True
    then show ?thesis by (simp add: digits.simps [of n] digits_value_def)
  next
    case False
    with "1.IH" show ?thesis
      by (simp add: digits.simps [of n] digits_value_snoc)
  qed
qed

lemma number_end_no_frac_exp: "number_end r \<Longrightarrow> \<not> is_frac r \<and> \<not> is_exp r"
  by (auto simp: number_end_def is_frac_def is_exp_def split: list.splits)

lemma takeWhile_digits:
  assumes "\<forall>c \<in> set cs. is_digit c" and "number_end r"
  shows "takeWhile is_digit (cs @ r) = cs"
proof -
  from assms(2) have "takeWhile is_digit r = []"
    by (cases r) (simp_all add: number_end_def)
  with assms(1) show ?thesis by (simp add: takeWhile_append2)
qed

lemma match_number_digits:
  assumes "number_end r"
  shows "match_number (digits n @ r) = Inr (PyInt (int n), r)"
proof -
  obtain c cs where d: "digits n = c # cs"
    using digits_nonempty [of n] by (cases "digits n") auto
  have dig: "is_digit c" "\<forall>x \<in> set cs. is_digit x"
    using digits_all [of _ n] d by auto
  then have nominus: "c \<noteq> CHR ''-''" by (auto simp: is_digit_def)
  note fe = number_end_no_frac_exp [OF assms]
  show ?thesis
  proof (cases "c = CHR ''0''")
    case True
    with d have "n = 0" using digits_hd_zero by blast
    with d have "cs = []" "c = CHR ''0''" by (simp_all add: digits_zero)
    with d fe \<open>n = 0\<close> show ?thesis
      by (simp add: match_number_def Let_def digits_value_def)
  next
    case False
    have tw: "takeWhile is_digit (cs @ r) = cs" by (rule takeWhile_digits [OF dig(2) assms])
    have "digits_value (c # cs) = n" using digits_value_digits [of n] d by simp
    with False nominus dig(1) tw fe show ?thesis
      by (simp add: match_number_def Let_def d)
  qed
qed

lemma match_number_minus_digits:
  assumes "number_end r" and "0 < n"
  shows "match_number (CHR ''-'' # digits n @ r) = Inr (PyInt (- int n), r)"
proof -
  obtain c cs where d: "digits n = c # cs"
    using digits_nonempty [of n] by (cases "digits n") auto
  have dig: "is_digit c" "\<forall>x \<in> set cs. is_digit x"
    using digits_all [of _ n] d by auto
  note fe = number_end_no_frac_exp [OF assms(1)]
  from assms(2) d have nz: "c \<noteq> CHR ''0''" using digits_hd_zero by blast
  have tw: "takeWhile is_digit (cs @ r) = cs" by (rule takeWhile_digits [OF dig(2) assms(1)])
  have "digits_value (c # cs) = n" using digits_value_digits [of n] d by simp
  with nz dig(1) tw fe show ?thesis
    by (simp add: match_number_def Let_def d)
qed

lemma match_number_intstr:
  "number_end r \<Longrightarrow> match_number (intstr i @ r) = Inr (PyInt i, r)"
  using match_number_digits [of r "nat i"] match_number_minus_digits [of r "nat (- i)"]
  by (simp add: intstr_def)

lemma intstr_first:
  "\<exists>c cs. intstr i = c # cs \<and> (is_digit c \<or> (c = CHR ''-'' \<and> (\<exists>d ds. cs = d # ds \<and> is_digit d)))"
proof -
  obtain c cs where d: "digits (nat \<bar>i\<bar>) = c # cs"
    using digits_nonempty [of "nat \<bar>i\<bar>"] by (cases "digits (nat \<bar>i\<bar>)") auto
  then have "is_digit c" using digits_all [of c "nat \<bar>i\<bar>"] by simp
  with d show ?thesis by (cases "i < 0") (auto simp: intstr_def abs_if)
qed

subsection \<open>Values\<close>
lemma dict_store_new:
  "key \<notin> fst ` set dct \<Longrightarrow> dict_store key v dct = dct @ [(key, v)]"
  by (induction dct) auto

lemma foldl_dict_store:
  "distinct (map fst (acc @ pairs)) \<Longrightarrow>
   foldl (\<lambda>dct (key, v). dict_store key v dct) acc pairs = acc @ pairs"
proof (induction pairs arbitrary: acc)
  case Nil
  show ?case by simp
next
  case (Cons p pairs)
  obtain key v where p: "p = (key, v)" by (cases p)
  from Cons.prems p have "key \<notin> fst ` set acc" by auto
  then have "dict_store key v acc = acc @ [(key, v)]" by (rule dict_store_new)
  moreover from Cons.prems p have "distinct (map fst ((acc @ [(key, v)]) @ pairs))" by simp
  ultimately show ?case using Cons.IH [of "acc @ [(key, v)]"] p by simp
qed

lemma dict_of_pairs_distinct: "distinct (map fst pairs) \<Longrightarrow> dict_of_pairs pairs = pairs"
  using foldl_dict_store [of "[]" pairs] by (simp add: dict_of_pairs_def)

lemma number_end_simps:
  "number_end []" "number_end (newline_indent level @ r)" "number_end (CHR '','' # r)"
  by (simp_all add: number_end_def newline_indent_def is_digit_def)

lemma encode_basestring_ascii_Cons:
  "encode_basestring_ascii s @ r = CHR 0x22 # concat (map escape_char s) @ CHR 0x22 # r"
  by (simp add: encode_basestring_ascii_def)

lemma scan_once_null: "scan_once (Suc fuel) (''null'' @ r) = Inr (PyNone, r)"
  by simp

lemma scan_once_true: "scan_once (Suc fuel) (''true'' @ r) = Inr (PyBool True, r)"
  by simp

lemma scan_once_false: "scan_once (Suc fuel) (''false'' @ r) = Inr (PyBool False, r)"
  by simp

lemma scan_once_string:
  "scan_once (Suc fuel) (encode_basestring_ascii s @ r) = Inr (PyStr s, r)"
  by (simp add: encode_basestring_ascii_Cons scanstring_encode)

lemma scan_once_number:
  assumes "is_digit c \<or> (c = CHR ''-'' \<and> (\<exists>d ds. cs = d # ds \<and> is_digit d))"
  shows "scan_once (Suc fuel) (c # cs) = match_number (c # cs)"
proof -
  from assms have "c \<noteq> CHR 0x22" "c \<noteq> CHR ''{''" "c \<noteq> CHR ''[''" "c \<noteq> CHR ''n''"
    "c \<noteq> CHR ''t''" "c \<noteq> CHR ''f''" "c \<noteq> CHR ''N''" "c \<noteq> CHR ''I''"
    by (auto simp: is_digit_def)
  moreover from assms have "\<not> prefix ''-Infinity'' (c # cs)"
    by (auto simp: is_digit_def)
  ultimately show ?thesis by auto
qed

lemma scan_once_int:
  assumes "number_end r"
  shows "scan_once (Suc fuel) (intstr i @ r) = Inr (PyInt i, r)"
proof -
  from intstr_first [of i] obtain c cs where
    i: "intstr i = c # cs"
    and c: "is_digit c \<or> (c = CHR ''-'' \<and> (\<exists>d ds. cs = d # ds \<and> is_digit d))"
    by blast
  from c have "is_digit c \<or> (c = CHR ''-'' \<and> (\<exists>d ds. cs @ r = d # ds \<and> is_digit d))"
    by auto
  from scan_once_number [OF this, of fuel] match_number_intstr [OF assms, of i] i
  show ?thesis by simp
qed

lemma not_whitespace_simps:
  "\<not> is_whitespace (CHR '']'')" "\<not> is_whitespace (CHR ''}'')" "\<not> is_whitespace (CHR '','')"
  "\<not> is_whitespace (CHR '':'')" "\<not> is_whitespace (CHR 0x22)"
  by (simp_all add: is_whitespace_def)

lemma iterencode_start:
  "\<exists>c t. iterencode level v = c # t \<and> \<not> is_whitespace c \<and> c \<noteq> CHR '']'' \<and> c \<noteq> CHR ''}''"
proof (cases v)
  case (PyInt i)
  from intstr_first [of i] obtain c cs where
    "intstr i = c # cs" "is_digit c \<or> c = CHR ''-''" by blast
  with PyInt show ?thesis by (auto simp: is_digit_def is_whitespace_def)
next
  case (PyBool b)
  then show ?thesis by (cases b) (simp_all add: is_whitespace_def)
next
  case (PyList lst)
  then show ?thesis by (cases lst) (simp_all add: is_whitespace_def)
next
  case (PyDict dct)
  then show ?thesis by (cases dct) (simp_all add: is_whitespace_def)
qed (simp_all add: is_whitespace_def encode_basestring_ascii_def)

lemma iterencode_list_Cons:
  "iterencode_list level (v # lst) =
     iterencode level v @
     (if lst = [] then [] else CHR '','' # newline_indent level @ iterencode_list level lst)"
  by (cases lst) simp_all

lemma iterencode_dict_Cons:
  "iterencode_dict level ((key, v) # dct) =
     encode_basestring_ascii key @ '': '' @ iterencode level v @
     (if dct = [] then [] else CHR '','' # newline_indent level @ iterencode_dict level dct)"
  by (cases dct) auto

lemma iterencode_list_start:
  "lst \<noteq> [] \<Longrightarrow>
   \<exists>c t. iterencode_list level lst = c # t \<and> \<not> is_whitespace c \<and> c \<noteq> CHR '']''"
proof (cases lst)
  case Nil
  moreover assume "lst \<noteq> []"
  ultimately show ?thesis by simp
next
  case (Cons v rest)
  from iterencode_start [of level v] obtain c t where
    "iterencode level v = c # t" "\<not> is_whitespace c" "c \<noteq> CHR '']''" by blast
  with Cons show ?thesis by (simp add: iterencode_list_Cons)
qed

lemma iterencode_dict_start:
  "dct \<noteq> [] \<Longrightarrow> \<exists>t. iterencode_dict level dct = CHR 0x22 # t"
proof (cases dct)
  case Nil
  moreover assume "dct \<noteq> []"
  ultimately show ?thesis by simp
next
  case (Cons item rest)
  obtain key v where "item = (key, v)" by (cases item)
  with Cons show ?thesis by (simp add: iterencode_dict_Cons encode_basestring_ascii_def)
qed

lemma skip_newline_indent_list:
  assumes "lst \<noteq> []"
  shows "skip_whitespace (newline_indent n @ iterencode_list level lst @ r) =
           iterencode_list level lst @ r"
proof -
  from iterencode_list_start [OF assms, of level] obtain c t where
    "iterencode_list level lst = c # t" "\<not> is_whitespace c" by blast
  then show ?thesis by (simp add: skip_whitespace_newline_indent skip_whitespace_Cons)
qed

lemma skip_newline_indent_dict:
  assumes "dct \<noteq> []"
  shows "skip_whitespace (newline_indent n @ iterencode_dict level dct @ r) =
           iterencode_dict level dct @ r"
proof -
  from iterencode_dict_start [OF assms, of level] obtain t where
    "iterencode_dict level dct = CHR 0x22 # t" by blast
  then show ?thesis
    by (simp add: skip_whitespace_newline_indent skip_whitespace_Cons not_whitespace_simps)
qed

lemma skip_newline_indent_close:
  "\<not> is_whitespace c \<Longrightarrow> skip_whitespace (newline_indent n @ c # r) = c # r"
  by (simp add: skip_whitespace_newline_indent skip_whitespace_Cons)

lemma parse_array_items:
  assumes "lst \<noteq> []"
    and "\<And>v level fuel r. v \<in> set lst \<Longrightarrow> well_formed v \<Longrightarrow> number_end r \<Longrightarrow>
           2 * length (iterencode level v @ r) < fuel \<Longrightarrow>
           scan_once fuel (iterencode level v @ r) = Inr (v, r)"
    and "list_all well_formed lst"
    and "2 * length (iterencode_list level lst @ newline_indent outer @ CHR '']'' # r) + 1 < fuel"
  shows "parse_array fuel (iterencode_list level lst @ newline_indent outer @ CHR '']'' # r) =
           Inr (lst, r)"
  using assms
proof (induction lst arbitrary: fuel rule: list_nonempty_induct)
  case (single v)
  let ?rest = "newline_indent outer @ CHR '']'' # r"
  from single.prems(3) obtain f where f: "fuel = Suc f" by (cases fuel) auto
  from single.prems(3) f have "2 * length (iterencode level v @ ?rest) < f" by simp
  with single.prems(1) [of v ?rest level f] single.prems(2)
  have "scan_once f (iterencode level v @ ?rest) = Inr (v, ?rest)"
    by (simp add: number_end_simps)
  then show ?case
    by (simp add: f skip_newline_indent_close not_whitespace_simps)
next
  case (cons v lst)
  let ?tail = "iterencode_list level lst @ newline_indent outer @ CHR '']'' # r"
  let ?rest = "CHR '','' # newline_indent level @ ?tail"
  have enc: "iterencode_list level (v # lst) @ newline_indent outer @ CHR '']'' # r =
      iterencode level v @ ?rest"
    using cons.hyps by (simp add: iterencode_list_Cons)
  from cons.prems(3) obtain f where f: "fuel = Suc f" by (cases fuel) auto
  from cons.prems(3) f have "2 * length (iterencode level v @ ?rest) < f"
    unfolding enc by simp
  with cons.prems(1) [of v ?rest level f] cons.prems(2)
  have v: "scan_once f (iterencode level v @ ?rest) = Inr (v, ?rest)"
    by (simp add: number_end_simps)
  have "2 * length ?tail + 1 < f"
    using cons.prems(3) f unfolding enc by simp
  with cons.IH [of f] cons.prems(1,2)
  have "parse_array f ?tail = Inr (lst, r)" by simp
  moreover have "skip_whitespace (newline_indent level @ ?tail) = ?tail"
    using skip_newline_indent_list [OF cons.hyps] by simp
  ultimately show ?case
    unfolding enc using v
    by (simp add: f skip_whitespace_Cons not_whitespace_simps)
qed

lemma skip_space_value:
  "skip_whitespace (CHR '' '' # iterencode level v @ r) = iterencode level v @ r"
proof -
  from iterencode_start [of level v] obtain c t where
    "iterencode level v = c # t" "\<not> is_whitespace c" by blast
  then show ?thesis by (simp add: skip_whitespace_def is_whitespace_def)
qed

lemma parse_object_item:
  assumes "scan_once f (iterencode level v @ rest) = Inr (v, rest)"
  shows "parse_object (Suc f) (encode_basestring_ascii key @ '': '' @ iterencode level v @ rest) =
           (case skip_whitespace rest of
              [] \<Rightarrow> Inl JSONDecodeError
            | x # xs \<Rightarrow>
                if x = CHR ''}'' then Inr ([(key, v)], xs)
                else if x = CHR '','' then
                  (case parse_object f (skip_whitespace xs) of
                     Inl e \<Rightarrow> Inl e
                   | Inr (pairs, rest2) \<Rightarrow> Inr ((key, v) # pairs, rest2))
                else Inl JSONDecodeError)"
proof -
  have "encode_basestring_ascii key @ '': '' @ iterencode level v @ rest =
      CHR 0x22 # concat (map escape_char key) @ CHR 0x22 # CHR '':'' # CHR '' '' #
        iterencode level v @ rest"
    by (simp add: encode_basestring_ascii_def)
  then show ?thesis
    using assms
    by (simp add: scanstring_encode skip_whitespace_Cons not_whitespace_simps skip_space_value)
qed

lemma parse_object_items:
  assumes "dct \<noteq> []"
    and "\<And>key v level fuel r. (key, v) \<in> set dct \<Longrightarrow> well_formed v \<Longrightarrow> number_end r \<Longrightarrow>
           2 * length (iterencode level v @ r) < fuel \<Longrightarrow>
           scan_once fuel (iterencode level v @ r) = Inr (v, r)"
    and "list_all (\<lambda>item. well_formed (snd item)) dct"
    and "2 * length (iterencode_dict level dct @ newline_indent outer @ CHR ''}'' # r) + 1 < fuel"
  shows "parse_object fuel (iterencode_dict level dct @ newline_indent outer @ CHR ''}'' # r) =
           Inr (dct, r)"
  using assms
proof (induction dct arbitrary: fuel rule: list_nonempty_induct)
  case (single item)
  obtain key v where item: "item = (key, v)" by (cases item)
  let ?rest = "newline_indent outer @ CHR ''}'' # r"
  from single.prems(3) obtain f where f: "fuel = Suc f" by (cases fuel) auto
  from single.prems(3) f item have "2 * length (iterencode level v @ ?rest) < f" by simp
  with single.prems(1) [of key v ?rest level f] single.prems(2) item
  have "scan_once f (iterencode level v @ ?rest) = Inr (v, ?rest)"
    by (simp add: number_end_simps)
  from parse_object_item [OF this, of key] show ?case
    by (simp add: f item skip_newline_indent_close not_whitespace_simps)
next
  case (cons item dct)
  obtain key v where item: "item = (key, v)" by (cases item)
  let ?tail = "iterencode_dict level dct @ newline_indent outer @ CHR ''}'' # r"
  let ?rest = "CHR '','' # newline_indent level @ ?tail"
  have enc: "iterencode_dict level (item # dct) @ newline_indent outer @ CHR ''}'' # r =
      encode_basestring_ascii key @ '': '' @ iterencode level v @ ?rest"
    using cons.hyps by (simp add: item iterencode_dict_Cons)
  from cons.prems(3) obtain f where f: "fuel = Suc f" by (cases fuel) auto
  from cons.prems(3) f have "2 * length (iterencode level v @ ?rest) < f"
    unfolding enc by simp
  with cons.prems(1) [of key v ?rest level f] cons.prems(2) item
  have v: "scan_once f (iterencode level v @ ?rest) = Inr (v, ?rest)"
    by (simp add: number_end_simps)
  have "parse_object f ?tail = Inr (dct, r)"
  proof (rule cons.IH)
    fix k w l fu q
    assume "(k, w) \<in> set dct" "well_formed w" "number_end q"
      "2 * length (iterencode l w @ q) < fu"
    then show "scan_once fu (iterencode l w @ q) = Inr (w, q)"
      using cons.prems(1) [where key = k and v = w and level = l and fuel = fu and r = q]
      by simp
  next
    from cons.prems(2) show "list_all (\<lambda>item. well_formed (snd item)) dct" by simp
  next
    from cons.prems(3) f show "2 * length ?tail + 1 < f" unfolding enc by simp
  qed
  moreover have "skip_whitespace (newline_indent level @ ?tail) = ?tail"
    using skip_newline_indent_dict [OF cons.hyps] by simp
  ultimately show ?case
    unfolding enc f parse_object_item [OF v]
    by (simp add: item skip_whitespace_Cons not_whitespace_simps)
qed

lemma scan_once_iterencode:
  "well_formed v \<Longrightarrow> number_end r \<Longrightarrow> 2 * length (iterencode level v @ r) < fuel \<Longrightarrow>
   scan_once fuel (iterencode level v @ r) = Inr (v, r)"
proof (induction v arbitrary: level fuel r)
  case PyNone
  then obtain f where "fuel = Suc f" by (cases fuel) auto
  then show ?case using scan_once_null [of f r] by simp
next
  case (PyBool b)
  then obtain f where "fuel = Suc f" by (cases fuel) auto
  then show ?case using scan_once_true [of f r] scan_once_false [of f r] by (cases b) simp_all
next
  case (PyInt i)
  then obtain f where "fuel = Suc f" by (cases fuel) auto
  then show ?case using scan_once_int [OF PyInt.prems(2), of f i] by simp
next
  case (PyStr s)
  then obtain f where "fuel = Suc f" by (cases fuel) auto
  then show ?case using scan_once_string [of f s r] by simp
next
  case (PyList lst)
  from PyList.prems(3) obtain f where f: "fuel = Suc f" by (cases fuel) auto
  show ?case
  proof (cases "lst = []")
    case True
    then show ?thesis by (simp add: f skip_whitespace_Cons not_whitespace_simps)
  next
    case False
    let ?items = "iterencode_list (level + 1) lst @ newline_indent level @ CHR '']'' # r"
    from False obtain v rest where lst: "lst = v # rest" by (cases lst) auto
    have enc: "iterencode level (PyList lst) @ r =
        CHR ''['' # newline_indent (level + 1) @ ?items"
      by (simp add: lst)
    from iterencode_list_start [OF False, of "level + 1"] obtain c t where
      c: "iterencode_list (level + 1) lst = c # t" "c \<noteq> CHR '']''" by blast
    have skip: "skip_whitespace (newline_indent (level + 1) @ ?items) = ?items"
      using skip_newline_indent_list [OF False] by simp
    have "2 * length ?items + 1 < f"
      using PyList.prems(3) unfolding enc f by simp
    moreover from PyList.prems(1) have "list_all well_formed lst" by simp
    ultimately have "parse_array f ?items = Inr (lst, r)"
      using parse_array_items [OF False, where fuel = f and level = "level + 1" and outer = level and r = r] PyList.IH by blast
    then show ?thesis
      unfolding enc f using skip c by simp
  qed
next
  case (PyDict dct)
  from PyDict.prems(3) obtain f where f: "fuel = Suc f" by (cases fuel) auto
  show ?case
  proof (cases "dct = []")
    case True
    then show ?thesis by (simp add: f skip_whitespace_Cons not_whitespace_simps)
  next
    case False
    let ?items = "iterencode_dict (level + 1) dct @ newline_indent level @ CHR ''}'' # r"
    from False obtain item rest where dct: "dct = item # rest" by (cases dct) auto
    have enc: "iterencode level (PyDict dct) @ r =
        CHR ''{'' # newline_indent (level + 1) @ ?items"
      by (simp add: dct)
    from iterencode_dict_start [OF False, of "level + 1"] obtain t where
      c: "iterencode_dict (level + 1) dct = CHR 0x22 # t" by blast
    have skip: "skip_whitespace (newline_indent (level + 1) @ ?items) = ?items"
      using skip_newline_indent_dict [OF False] by simp
    have "2 * length ?items + 1 < f"
      using PyDict.prems(3) unfolding enc f by simp
    moreover from PyDict.prems(1)
    have wf: "list_all (\<lambda>item. well_formed (snd item)) dct" "distinct (map fst dct)"
      by simp_all
    moreover have "\<And>key v level fuel r. (key, v) \<in> set dct \<Longrightarrow> well_formed v \<Longrightarrow>
        number_end r \<Longrightarrow> 2 * length (iterencode level v @ r) < fuel \<Longrightarrow>
        scan_once fuel (iterencode level v @ r) = Inr (v, r)"
      using PyDict.IH by fastforce
    ultimately have "parse_object f ?items = Inr (dct, r)"
      using parse_object_items [OF False, where fuel = f and level = "level + 1" and outer = level and r = r] by blast
    then show ?thesis
      unfolding enc f using skip c dict_of_pairs_distinct [OF wf(2)] by simp
  qed
qed

lemma json_loads_dumps: "well_formed obj \<Longrightarrow> json_loads (json_dumps obj) = Inr obj"
proof -
  assume wf: "well_formed obj"
  from iterencode_start [of 0 obj] obtain c t where
    "iterencode 0 obj = c # t" "\<not> is_whitespace c" by blast
  then have skip: "skip_whitespace (iterencode 0 obj) = iterencode 0 obj"
    by (simp add: skip_whitespace_Cons)
  have "scan_once (2 * length (iterencode 0 obj) + 1) (iterencode 0 obj @ []) = Inr (obj, [])"
    by (rule scan_once_iterencode [OF wf]) (simp_all add: number_end_simps)
  with skip show ?thesis by (simp add: json_loads_def json_dumps_def skip_whitespace_def)
qed

section \<open>The decoder on any text\<close>

text \<open>
  Each scanner returns a rest shorter than its input, so the decoder never runs out of
  the fuel it starts with: it returns a value, raises \<open>JSONDecodeError\<close> or leaves the
  model.
\<close>

lemma skip_whitespace_length: "length (skip_whitespace s) \<le> length s"
  by (simp add: skip_whitespace_def length_dropWhile_le)

lemma skip_whitespace_Cons_length:
  "skip_whitespace s = c # cs \<Longrightarrow> length cs < length s"
  using skip_whitespace_length [of s] by simp










section \<open>Dictionaries keep their keys distinct\<close>

text \<open>What the decoder returns, and what the program makes of it, holds each key once.\<close>

lemma fst_set_dict_store: "fst ` set (dict_store key v dct) = insert key (fst ` set dct)"
  by (induction dct) auto

lemma distinct_dict_store:
  "distinct (map fst dct) \<Longrightarrow> distinct (map fst (dict_store key v dct))"
  by (induction dct) (auto simp: fst_set_dict_store)

lemma set_dict_store: "set (dict_store key v dct) \<subseteq> insert (key, v) (set dct)"
  by (induction dct) auto

lemma well_formed_dict_store:
  assumes "well_formed (PyDict dct)" and "well_formed v"
  shows "well_formed (PyDict (dict_store key v dct))"
proof -
  from assms have "\<forall>item \<in> set (dict_store key v dct). well_formed (snd item)"
    using set_dict_store [of key v dct] by (auto simp: list_all_iff)
  with assms(1) show ?thesis by (simp add: distinct_dict_store list_all_iff)
qed







lemma well_formed_setitem:
  "setitem d key v = Inr d' \<Longrightarrow> well_formed d \<Longrightarrow> well_formed v \<Longrightarrow> well_formed d'"
  by (cases d) (auto simp: setitem_def intro: well_formed_dict_store)

lemma well_formed_auto_escalate:
  assumes "auto_escalate strptime today g = Inr (fired, g')" and "well_formed g"
  shows "well_formed g'"
proof (cases fired)
  case False
  with assms auto_escalate_unfired [of strptime today g g'] show ?thesis by simp
next
  case True
  from assms(1) obtain items where g: "g = PyDict items"
    by (cases g) (auto simp: auto_escalate_def getitem_def)
  from assms(1) True have
    "g' = PyDict (dict_store ''Status'' (PyStr ''Escalated'')
            (dict_store ''Escalated'' (PyStr ''Yes'') items))"
    by (auto simp: g auto_escalate_def setitem_def
        split: sum.splits pyval.splits option.splits if_splits)
  then have g': "g' = PyDict (dict_store ''Status'' (PyStr ''Escalated'')
            (dict_store ''Escalated'' (PyStr ''Yes'') items))" .
  from assms(2) g have "well_formed (PyDict items)" by simp
  then have "well_formed (PyDict (dict_store ''Escalated'' (PyStr ''Yes'') items))"
    by (rule well_formed_dict_store) simp
  then have "well_formed (PyDict (dict_store ''Status'' (PyStr ''Escalated'')
            (dict_store ''Escalated'' (PyStr ''Yes'') items)))"
    by (rule well_formed_dict_store) simp
  then show ?thesis unfolding g' .
qed

lemma well_formed_update_status:
  "update_status strptime today selected_id new_status gs = Inr gs' \<Longrightarrow>
   list_all well_formed gs \<Longrightarrow> list_all well_formed gs'"
proof (induction gs arbitrary: gs')
  case Nil
  then show ?case by simp
next
  case (Cons g gs)
  from update_status_Cons [OF Cons.prems(1)] obtain g' rest where
    r: "gs' = g' # rest" "update_status strptime today selected_id new_status gs = Inr rest"
    and h: "getitem g ''ID'' = Inr (PyStr selected_id) \<longrightarrow>
              (\<exists>g1 fired. setitem g ''Status'' (PyStr new_status) = Inr g1 \<and>
                 auto_escalate strptime today g1 = Inr (fired, g'))"
           "getitem g ''ID'' \<noteq> Inr (PyStr selected_id) \<longrightarrow> g' = g"
    by blast
  from Cons.prems(2) have wg: "well_formed g" and wgs: "list_all well_formed gs" by simp_all
  have "well_formed g'"
  proof (cases "getitem g ''ID'' = Inr (PyStr selected_id)")
    case False
    with h(2) wg show ?thesis by simp
  next
    case True
    with h(1) obtain g1 fired where
      s: "setitem g ''Status'' (PyStr new_status) = Inr g1"
      and a: "auto_escalate strptime today g1 = Inr (fired, g')"
      by blast
    from well_formed_setitem [OF s wg] have "well_formed g1" by simp
    with a show ?thesis by (rule well_formed_auto_escalate)
  qed
  with Cons.IH [OF r(2) wgs] r(1) show ?case by simp
qed


section \<open>The decoder and the grammar of JSON\<close>

text \<open>
  The decoder reads the well-formed documents and no others: what it returns a value
  for is a document of the grammar, and on a document of the grammar it does not raise
  \<open>JSONDecodeError\<close>.
\<close>

subsection \<open>What the decoder reads is well-formed\<close>












subsection \<open>Where a document leaves the model\<close>













subsection \<open>What is well-formed the decoder reads\<close>



















subsection \<open>Documents that are cut off\<close>




section \<open>The decoder under the limits of the interpreter\<close>





subsection \<open>Reading back within the limits\<close>












subsection \<open>When a limit is exceeded\<close>



















section \<open>Properties of the record store\<close>






section \<open>The record a status update stores\<close>

text \<open>
  C10. The update returns when every record has an \<open>ID\<close> and the selected ones have a
  date that \<open>strptime\<close> reads. When it returns, the list has its length, and the document
  saved for it reads back as this list (each dictionary of the list holding each key
  once). Every record with the selected \<open>ID\<close> is the result
  of assigning the chosen status and then running \<open>auto_escalate\<close> on it. So choosing
  \<open>Pending\<close> for a record dated more than 3 days before today leaves it with \<open>Status\<close>
  \<open>Escalated\<close> and \<open>Escalated\<close> \<open>Yes\<close>, and choosing \<open>Resolved\<close> or \<open>Escalated\<close>
  leaves it with the chosen status and every other field as before, whatever its age.
\<close>

theorem update_status_then_escalate:
  "((\<forall>g \<in> set gs. (\<exists>ident. getitem g ''ID'' = Inr ident) \<and>
       (getitem g ''ID'' = Inr (PyStr selected_id) \<longrightarrow>
          (\<exists>date_string g_date. getitem g ''Date'' = Inr (PyStr date_string) \<and>
             strptime date_string = Some g_date))) \<longrightarrow>
      (\<exists>gs'. update_status strptime today selected_id new_status gs = Inr gs')) \<and>
   (update_status strptime today selected_id new_status gs = Inr gs' \<longrightarrow>
      length gs' = length gs \<and>
      (well_formed (PyList gs) \<longrightarrow>
         load_grievances (save_grievances (PyList gs')) = Inr (PyList gs')) \<and>
      (\<forall>i < length gs. getitem (gs ! i) ''ID'' = Inr (PyStr selected_id) \<longrightarrow>
         (\<exists>g1 fired. setitem (gs ! i) ''Status'' (PyStr new_status) = Inr g1 \<and>
            auto_escalate strptime today g1 = Inr (fired, gs' ! i)) \<and>
         (new_status = ''Pending'' \<and>
          (\<exists>date_string g_date. getitem (gs ! i) ''Date'' = Inr (PyStr date_string) \<and>
             strptime date_string = Some g_date \<and> today - g_date > 3) \<longrightarrow>
            getitem (gs' ! i) ''Status'' = Inr (PyStr ''Escalated'') \<and>
            getitem (gs' ! i) ''Escalated'' = Inr (PyStr ''Yes'')) \<and>
         (new_status = ''Resolved'' \<or> new_status = ''Escalated'' \<longrightarrow>
            getitem (gs' ! i) ''Status'' = Inr (PyStr new_status) \<and>
            (\<forall>key. key \<noteq> ''Status'' \<longrightarrow> getitem (gs' ! i) key = getitem (gs ! i) key))))"
proof (intro conjI impI)
  assume "\<forall>g \<in> set gs. (\<exists>ident. getitem g ''ID'' = Inr ident) \<and>
       (getitem g ''ID'' = Inr (PyStr selected_id) \<longrightarrow>
          (\<exists>date_string g_date. getitem g ''Date'' = Inr (PyStr date_string) \<and>
             strptime date_string = Some g_date))"
  then show "\<exists>gs'. update_status strptime today selected_id new_status gs = Inr gs'"
    by (rule update_status_returns)
next
  assume "update_status strptime today selected_id new_status gs = Inr gs'"
  then show "length gs' = length gs" by (rule update_status_length)
next
  assume u: "update_status strptime today selected_id new_status gs = Inr gs'"
    and "well_formed (PyList gs)"
  then have "well_formed (PyList gs')"
    using well_formed_update_status [OF u] by simp
  then show "load_grievances (save_grievances (PyList gs')) = Inr (PyList gs')"
    by (simp add: load_grievances_def save_grievances_def json_loads_dumps)
next
  assume u: "update_status strptime today selected_id new_status gs = Inr gs'"
  show "\<forall>i < length gs. getitem (gs ! i) ''ID'' = Inr (PyStr selected_id) \<longrightarrow>
         (\<exists>g1 fired. setitem (gs ! i) ''Status'' (PyStr new_status) = Inr g1 \<and>
            auto_escalate strptime today g1 = Inr (fired, gs' ! i)) \<and>
         (new_status = ''Pending'' \<and>
          (\<exists>date_string g_date. getitem (gs ! i) ''Date'' = Inr (PyStr date_string) \<and>
             strptime date_string = Some g_date \<and> today - g_date > 3) \<longrightarrow>
            getitem (gs' ! i) ''Status'' = Inr (PyStr ''Escalated'') \<and>
            getitem (gs' ! i) ''Escalated'' = Inr (PyStr ''Yes'')) \<and>
         (new_status = ''Resolved'' \<or> new_status = ''Escalated'' \<longrightarrow>
            getitem (gs' ! i) ''Status'' = Inr (PyStr new_status) \<and>
            (\<forall>key. key \<noteq> ''Status'' \<longrightarrow> getitem (gs' ! i) key = getitem (gs ! i) key))"
    using update_status_selected [OF u] by blast
qed

theorem update_status_then_escalate_witness:
  "(let strptime = (\<lambda>s. if s = ''2024-01-01'' then Some (738886::int) else None);
        g = PyDict [(''ID'', PyStr ''1a2b3c4d''), (''Date'', PyStr ''2024-01-01''),
                    (''Status'', PyStr ''Resolved''), (''Escalated'', PyStr ''No'')];
        h = PyDict [(''ID'', PyStr ''99887766''), (''Date'', PyStr ''2024-01-01''),
                    (''Status'', PyStr ''Pending''), (''Escalated'', PyStr ''No'')];
        g_pending = PyDict [(''ID'', PyStr ''1a2b3c4d''), (''Date'', PyStr ''2024-01-01''),
                    (''Status'', PyStr ''Escalated''), (''Escalated'', PyStr ''Yes'')];
        g_escalated = PyDict [(''ID'', PyStr ''1a2b3c4d''), (''Date'', PyStr ''2024-01-01''),
                    (''Status'', PyStr ''Escalated''), (''Escalated'', PyStr ''No'')]
    in getitem h ''ID'' = Inr (PyStr ''99887766'') \<and>
       getitem g ''ID'' = Inr (PyStr ''1a2b3c4d'') \<and>
       getitem g ''Date'' = Inr (PyStr ''2024-01-01'') \<and>
       (\<exists>gs'. update_status strptime 738891 ''1a2b3c4d'' ''Pending'' [h, g] = Inr gs') \<and>
       update_status strptime 738891 ''1a2b3c4d'' ''Pending'' [h, g] = Inr [h, g_pending] \<and>
       update_status strptime 738891 ''1a2b3c4d'' ''Escalated'' [h, g] = Inr [h, g_escalated] \<and>
       well_formed (PyList [h, g]) \<and>
       load_grievances (save_grievances (PyList [h, g_pending])) = Inr (PyList [h, g_pending]) \<and>
       (1::nat) < length [h, g] \<and>
       getitem ([h, g] ! 1) ''ID'' = Inr (PyStr ''1a2b3c4d'') \<and>
       getitem ([h, g] ! 1) ''Date'' = Inr (PyStr ''2024-01-01'') \<and>
       strptime ''2024-01-01'' = Some 738886 \<and> (738891::int) - 738886 > 3 \<and>
       getitem ([h, g_pending] ! 1) ''Status'' = Inr (PyStr ''Escalated'') \<and>
       getitem ([h, g_pending] ! 1) ''Escalated'' = Inr (PyStr ''Yes'') \<and>
       getitem ([h, g_escalated] ! 1) ''Status'' = Inr (PyStr ''Escalated'') \<and>
       getitem ([h, g_escalated] ! 1) ''Escalated'' = getitem ([h, g] ! 1) ''Escalated'' \<and>
       getitem ([h, g_escalated] ! 1) ''Escalated'' = Inr (PyStr ''No''))"
proof -
  let ?sp = "\<lambda>s. if s = ''2024-01-01'' then Some (738886::int) else None"
  let ?g = "PyDict [(''ID'', PyStr ''1a2b3c4d''), (''Date'', PyStr ''2024-01-01''),
                    (''Status'', PyStr ''Resolved''), (''Escalated'', PyStr ''No'')]"
  let ?h = "PyDict [(''ID'', PyStr ''99887766''), (''Date'', PyStr ''2024-01-01''),
                    (''Status'', PyStr ''Pending''), (''Escalated'', PyStr ''No'')]"
  let ?gp = "PyDict [(''ID'', PyStr ''1a2b3c4d''), (''Date'', PyStr ''2024-01-01''),
                    (''Status'', PyStr ''Escalated''), (''Escalated'', PyStr ''Yes'')]"
  let ?ge = "PyDict [(''ID'', PyStr ''1a2b3c4d''), (''Date'', PyStr ''2024-01-01''),
                    (''Status'', PyStr ''Escalated''), (''Escalated'', PyStr ''No'')]"
  have pre: "getitem ?h ''ID'' = Inr (PyStr ''99887766'') \<and>
       getitem ?g ''ID'' = Inr (PyStr ''1a2b3c4d'') \<and>
       getitem ?g ''Date'' = Inr (PyStr ''2024-01-01'')"
    by (simp add: getitem_def)
  have pre': "\<forall>g \<in> set [?h, ?g]. (\<exists>ident. getitem g ''ID'' = Inr ident) \<and>
       (getitem g ''ID'' = Inr (PyStr ''1a2b3c4d'') \<longrightarrow>
          (\<exists>date_string g_date. getitem g ''Date'' = Inr (PyStr date_string) \<and>
             ?sp date_string = Some g_date))"
    by (simp add: getitem_def)
  note p = update_status_then_escalate [where strptime = ?sp and today = 738891
      and selected_id = "''1a2b3c4d''" and new_status = "''Pending''" and gs = "[?h, ?g]"
      and gs' = "[?h, ?gp]"]
  note e = update_status_then_escalate [where strptime = ?sp and today = 738891
      and selected_id = "''1a2b3c4d''" and new_status = "''Escalated''" and gs = "[?h, ?g]"
      and gs' = "[?h, ?ge]"]
  have u1: "update_status ?sp 738891 ''1a2b3c4d'' ''Pending'' [?h, ?g] = Inr [?h, ?gp]"
    by (simp add: getitem_def setitem_def auto_escalate_def)
  have u2: "update_status ?sp 738891 ''1a2b3c4d'' ''Escalated'' [?h, ?g] = Inr [?h, ?ge]"
    by (simp add: getitem_def setitem_def auto_escalate_def)
  have wf: "well_formed (PyList [?h, ?g])" by simp
  have i: "(1::nat) < length [?h, ?g]" by simp
  have d: "getitem ([?h, ?g] ! 1) ''ID'' = Inr (PyStr ''1a2b3c4d'')"
    by (simp add: getitem_def)
  have dt: "getitem ([?h, ?g] ! 1) ''Date'' = Inr (PyStr ''2024-01-01'')"
    by (simp add: getitem_def)
  have old: "\<exists>date_string g_date. getitem ([?h, ?g] ! 1) ''Date'' = Inr (PyStr date_string) \<and>
      ?sp date_string = Some g_date \<and> 738891 - g_date > 3"
    using dt by (intro exI [of _ "''2024-01-01''"] exI [of _ 738886]) simp
  note ret = p [THEN conjunct1, THEN mp, OF pre']
  note after_p = p [THEN conjunct2, THEN mp, OF u1]
  note after_e = e [THEN conjunct2, THEN mp, OF u2]
  have ld: "load_grievances (save_grievances (PyList [?h, ?gp])) = Inr (PyList [?h, ?gp])"
    by (rule after_p [THEN conjunct2, THEN conjunct1, THEN mp, OF wf])
  note sel_p = after_p [THEN conjunct2, THEN conjunct2, rule_format, OF i d]
  note sel_e = after_e [THEN conjunct2, THEN conjunct2, rule_format, OF i d]
  have pp: "getitem ([?h, ?gp] ! 1) ''Status'' = Inr (PyStr ''Escalated'') \<and>
           getitem ([?h, ?gp] ! 1) ''Escalated'' = Inr (PyStr ''Yes'')"
    by (rule sel_p [THEN conjunct2, THEN conjunct1, THEN mp, OF conjI [OF refl old]])
  have ee: "getitem ([?h, ?ge] ! 1) ''Status'' = Inr (PyStr ''Escalated'') \<and>
           (\<forall>key. key \<noteq> ''Status'' \<longrightarrow>
              getitem ([?h, ?ge] ! 1) key = getitem ([?h, ?g] ! 1) key)"
    by (rule sel_e [THEN conjunct2, THEN conjunct2, THEN mp, OF disjI2 [OF refl]])
  from ee have ee': "getitem ([?h, ?ge] ! 1) ''Escalated'' = getitem ([?h, ?g] ! 1) ''Escalated''"
    by simp
  have n: "getitem ([?h, ?ge] ! 1) ''Escalated'' = Inr (PyStr ''No'')"
    by (simp add: getitem_def)
  from pre ret u1 u2 wf ld i d dt pp ee ee' n show ?thesis unfolding Let_def by simp
qed

end
